theory Spec2Isabelle
  imports Main "HOL-Library.Multiset" "HOL-Library.Word"
begin

section \<open>Message entity (internal/domain/entities/message.go)\<close>

text \<open>
  Go types: \<open>uuid.UUID\<close> is a 16-byte array, hence a 128-bit word; \<open>time.Time\<close>
  is read as a number of nanoseconds and \<open>time.Duration\<close> likewise; a Go \<open>string\<close> is
  a byte sequence and \<open>len\<close> counts its bytes, exactly as \<open>length\<close> does on a HOL
  \<open>string\<close>. A nil pointer field (\<open>*time.Time\<close>, \<open>*string\<close>) is \<open>None\<close>.
\<close>

type_synonym uuid = "128 word"
type_synonym time = int
type_synonym duration = int

datatype MessageStatus = MessageStatusPending | MessageStatusSent | MessageStatusFailed

record Message =
  ID :: uuid
  Content :: string
  PhoneNumber :: string
  Status :: MessageStatus
  CreatedAt :: time
  UpdatedAt :: time
  SentAt :: "time option"
  ExternalMessageID :: "string option"
  ErrorMessage :: "string option"

text \<open>
  The sentinel errors of the entities package, followed by the three ways the code builds
  other error values: an error handed over by a collaborator outside the repository
  (database driver, HTTP client, cache, cron parser), \<open>fmt.Errorf("<prefix>: %w", err)\<close>
  and \<open>fmt.Errorf("API returned error: %s", msg)\<close>. \<open>PanicNilDeref\<close> stands for the
  run-time panic of dereferencing a nil pointer.
\<close>

datatype error =
    ErrInvalidMessageContent
  | ErrMessageTooLong
  | ErrInvalidPhoneNumber
  | ErrMessageNotFound
  | ErrSchedulerNotRunning
  | ErrSchedulerAlreadyRunning
  | ExternalError string
  | Wrapped string error
  | APIReturnedError string
  | PanicNilDeref

fun Error :: "error \<Rightarrow> string" where
  "Error ErrInvalidMessageContent = ''message content cannot be empty''"
| "Error ErrMessageTooLong = ''message content exceeds 160 characters''"
| "Error ErrInvalidPhoneNumber = ''phone number cannot be empty''"
| "Error ErrMessageNotFound = ''message not found''"
| "Error ErrSchedulerNotRunning = ''scheduler is not running''"
| "Error ErrSchedulerAlreadyRunning = ''scheduler is already running''"
| "Error (ExternalError s) = s"
| "Error (Wrapped p e) = p @ '': '' @ Error e"
| "Error (APIReturnedError s) = ''API returned error: '' @ s"
| "Error PanicNilDeref = ''invalid memory address or nil pointer dereference''"

definition Validate :: "Message \<Rightarrow> error option" where
  "Validate m =
     (if Content m = [] then Some ErrInvalidMessageContent
      else if length (Content m) > 160 then Some ErrMessageTooLong
      else if PhoneNumber m = [] then Some ErrInvalidPhoneNumber
      else None)"

definition MarkAsSent :: "time \<Rightarrow> string \<Rightarrow> Message \<Rightarrow> Message" where
  "MarkAsSent now externalMessageID m =
     m\<lparr>Status := MessageStatusSent, SentAt := Some now, UpdatedAt := now,
       ExternalMessageID := Some externalMessageID\<rparr>"

definition MarkAsFailed :: "time \<Rightarrow> string \<Rightarrow> Message \<Rightarrow> Message" where
  "MarkAsFailed now errorMsg m =
     m\<lparr>Status := MessageStatusFailed, UpdatedAt := now, ErrorMessage := Some errorMsg\<rparr>"

definition IsPending :: "Message \<Rightarrow> bool" where
  "IsPending m = (Status m = MessageStatusPending)"

definition IsSent :: "Message \<Rightarrow> bool" where
  "IsSent m = (Status m = MessageStatusSent)"


section \<open>The collaborators: store, delivery API, cache, logger, clock\<close>

text \<open>
  \<open>SendMessageResponse\<close> of internal/infrastructure/external/message_api.go.
\<close>

record SendMessageResponse =
  resp_MessageID :: string
  resp_Status :: string
  resp_Message :: string
  resp_Error :: string

datatype level = DebugLevel | InfoLevel | WarnLevel | ErrorLevel

text \<open>
  Everything outside the process is one value of type \<open>World\<close>: the rows of the
  \<open>messages\<close> table in insertion order, the number of SQL statements executed so far,
  the requests the delivery API has received so far (destination, content), the cache
  (number of commands so far, the scheduler-status key, the sent-message entries), the
  lines written by the logger (level and message; the structured fields are left out) and
  the reading of the wall clock, which \<open>time.Now()\<close> returns.
\<close>

record World =
  rows :: "Message list"
  dbOps :: nat
  apiRequests :: "(string \<times> string) list"
  cacheOps :: nat
  cacheStatus :: "string option"
  cacheSent :: "(uuid \<times> string \<times> time) list"
  logs :: "(level \<times> string) list"
  now :: time

text \<open>
  What the collaborators answer is fixed by an \<open>Env\<close>: whether the \<open>n\<close>-th SQL
  statement fails (\<open>QueryContext\<close> or \<open>ExecContext\<close> returns an error), what goes wrong
  at the \<open>k\<close>-th row of the result of the \<open>n\<close>-th statement (the iteration ends there
  with an error, or \<open>Scan\<close> fails on that row), what the delivery client returns for the \<open>n\<close>-th request (a transport
  error or a response), whether the \<open>n\<close>-th cache command fails, whether a cache is
  configured at all (\<open>cacheRepo != nil\<close>), and whether the cron library rejects the
  expression \<open>"@every " + Interval.String()\<close>, which is the same string for the life of a
  scheduler.
\<close>

datatype row_fault = IterationError | ScanError error

record Env =
  dbFails :: "nat \<Rightarrow> error option"
  rowFault :: "nat \<Rightarrow> nat \<Rightarrow> row_fault option"
  apiReply :: "nat \<Rightarrow> string \<Rightarrow> string \<Rightarrow> error + SendMessageResponse"
  cacheFails :: "nat \<Rightarrow> error option"
  cacheRepo :: bool
  cronParseErr :: "error option"

definition log :: "level \<Rightarrow> string \<Rightarrow> World \<Rightarrow> World" where
  "log lvl msg w = w\<lparr>logs := logs w @ [(lvl, msg)]\<rparr>"

subsection \<open>messageRepositoryImpl (internal/infrastructure/database/message\_repository\_impl.go)\<close>

text \<open>
  \<open>SELECT ... WHERE status = 'pending' ORDER BY created_at ASC LIMIT $1\<close>. Rows with
  equal \<open>created_at\<close> come in insertion order here (SQL leaves their order open). The
  database rejects a negative \<open>LIMIT\<close>.

  \<open>scan_rows\<close> is the loop \<open>for rows.Next() { ... }\<close> over the selected rows, with the
  slice \<open>messages\<close> built so far. When the iteration ends with an error, \<open>rows.Next()\<close>
  returns false and the loop ends; the code does not call \<open>rows.Err()\<close>, so the rows read
  so far are returned with a nil error. A failing \<open>Scan\<close> is returned as an error.
\<close>

fun scan_rows ::
  "(nat \<Rightarrow> row_fault option) \<Rightarrow> nat \<Rightarrow> Message list \<Rightarrow> Message list \<Rightarrow> error + Message list" where
  "scan_rows fault k [] messages = Inr messages"
| "scan_rows fault k (r # rs) messages =
     (case fault k of
        None \<Rightarrow> scan_rows fault (Suc k) rs (messages @ [r])
      | Some IterationError \<Rightarrow> Inr messages
      | Some (ScanError err) \<Rightarrow> Inl (Wrapped ''failed to scan message'' err))"

definition repo_GetPendingMessages :: "Env \<Rightarrow> int \<Rightarrow> World \<Rightarrow> (error + Message list) \<times> World" where
  "repo_GetPendingMessages env limit w =
     (let w1 = w\<lparr>dbOps := Suc (dbOps w)\<rparr> in
      case dbFails env (dbOps w) of
        Some e \<Rightarrow> (Inl (Wrapped ''failed to get pending messages'' e), w1)
      | None \<Rightarrow>
          if limit < 0
          then (Inl (Wrapped ''failed to get pending messages''
                       (ExternalError ''LIMIT must not be negative'')), w1)
          else (scan_rows (rowFault env (dbOps w)) 0
                  (take (nat limit)
                     (sort_key CreatedAt
                        (filter (\<lambda>m. Status m = MessageStatusPending) (rows w))))
                  [], w1))"

text \<open>
  \<open>UPDATE messages SET content, phone_number, status, updated_at, sent_at,
  external_message_id, error_message WHERE id = $1\<close>; no row affected is
  \<open>ErrMessageNotFound\<close>. The column \<open>created_at\<close> is not written. A failure of
  \<open>RowsAffected\<close> counts as a failure of the statement.
\<close>

definition update_row :: "Message \<Rightarrow> Message \<Rightarrow> Message" where
  "update_row m r =
     (if ID r = ID m
      then r\<lparr>Content := Content m, PhoneNumber := PhoneNumber m, Status := Status m,
             UpdatedAt := UpdatedAt m, SentAt := SentAt m,
             ExternalMessageID := ExternalMessageID m, ErrorMessage := ErrorMessage m\<rparr>
      else r)"

definition repo_Update :: "Env \<Rightarrow> Message \<Rightarrow> World \<Rightarrow> error option \<times> World" where
  "repo_Update env m w =
     (let w1 = w\<lparr>dbOps := Suc (dbOps w)\<rparr> in
      case dbFails env (dbOps w) of
        Some e \<Rightarrow> (Some (Wrapped ''failed to update message'' e), w1)
      | None \<Rightarrow>
          if length (filter (\<lambda>r. ID r = ID m) (rows w)) = 0
          then (Some ErrMessageNotFound, w1)
          else (None, w1\<lparr>rows := map (update_row m) (rows w)\<rparr>))"

subsection \<open>Delivery client and cache\<close>

definition api_SendMessage ::
  "Env \<Rightarrow> string \<Rightarrow> string \<Rightarrow> World \<Rightarrow> (error + SendMessageResponse) \<times> World" where
  "api_SendMessage env phoneNumber message w =
     (apiReply env (length (apiRequests w)) phoneNumber message,
      w\<lparr>apiRequests := apiRequests w @ [(phoneNumber, message)]\<rparr>)"

definition cache_SetMessageSent ::
  "Env \<Rightarrow> uuid \<Rightarrow> string \<Rightarrow> time \<Rightarrow> World \<Rightarrow> error option \<times> World" where
  "cache_SetMessageSent env messageID externalMessageID sentAt w =
     (let w1 = w\<lparr>cacheOps := Suc (cacheOps w)\<rparr> in
      case cacheFails env (cacheOps w) of
        Some e \<Rightarrow> (Some e, w1)
      | None \<Rightarrow> (None, w1\<lparr>cacheSent := (messageID, externalMessageID, sentAt) # cacheSent w\<rparr>))"

definition cache_SetSchedulerStatus :: "Env \<Rightarrow> string \<Rightarrow> World \<Rightarrow> error option \<times> World" where
  "cache_SetSchedulerStatus env status w =
     (let w1 = w\<lparr>cacheOps := Suc (cacheOps w)\<rparr> in
      case cacheFails env (cacheOps w) of
        Some e \<Rightarrow> (Some e, w1)
      | None \<Rightarrow> (None, w1\<lparr>cacheStatus := Some status\<rparr>))"

section \<open>messageUseCaseImpl (internal/application/usecases/message\_usecase\_impl.go)\<close>

definition GetPendingMessages :: "Env \<Rightarrow> int \<Rightarrow> World \<Rightarrow> (error + Message list) \<times> World" where
  "GetPendingMessages env limit w =
     (case repo_GetPendingMessages env limit w of
        (Inl err, w1) \<Rightarrow> (Inl err, log ErrorLevel ''Failed to get pending messages'' w1)
      | (Inr messages, w1) \<Rightarrow> (Inr messages, w1))"

text \<open>
  \<open>SendMessage\<close> mutates the message it is given; the model returns the mutated message
  beside the error and the world.
\<close>

definition SendMessage :: "Env \<Rightarrow> Message \<Rightarrow> World \<Rightarrow> error option \<times> Message \<times> World" where
  "SendMessage env message w0 =
     (let w = log InfoLevel ''Sending message'' w0 in
      case api_SendMessage env (PhoneNumber message) (Content message) w of
        (Inl err, w1) \<Rightarrow>
          (let message1 = MarkAsFailed (now w1) (Error err) message;
               (updateErr, w2) = repo_Update env message1 w1;
               w3 = (if updateErr \<noteq> None
                     then log ErrorLevel ''Failed to update message status after API error'' w2
                     else w2)
           in (Some err, message1, log ErrorLevel ''Failed to send message via API'' w3))
      | (Inr response, w1) \<Rightarrow>
          if resp_Status response \<noteq> ''sent''
          then
            (let errorMsg = (if resp_Error response = [] then ''Unknown error from API''
                             else resp_Error response);
                 message1 = MarkAsFailed (now w1) errorMsg message;
                 (updateErr, w2) = repo_Update env message1 w1;
                 w3 = (if updateErr \<noteq> None
                       then log ErrorLevel ''Failed to update message status after API failure'' w2
                       else w2)
             in (Some (APIReturnedError errorMsg), message1, w3))
          else
            (let message1 = MarkAsSent (now w1) (resp_MessageID response) message in
             case repo_Update env message1 w1 of
               (Some err, w2) \<Rightarrow>
                 (Some err, message1,
                  log ErrorLevel ''Failed to update message status after successful send'' w2)
             | (None, w2) \<Rightarrow>
                 if cacheRepo env
                 then
                   (case SentAt message1 of
                      None \<Rightarrow> (Some PanicNilDeref, message1, w2)
                    | Some sentAt \<Rightarrow>
                        (case cache_SetMessageSent env (ID message1) (resp_MessageID response)
                                sentAt w2 of
                           (Some err, w3) \<Rightarrow>
                             (None, message1,
                              log InfoLevel ''Message sent successfully''
                                (log WarnLevel ''Failed to cache sent message info'' w3))
                         | (None, w3) \<Rightarrow>
                             (None, message1, log InfoLevel ''Message sent successfully'' w3)))
                 else (None, message1, log InfoLevel ''Message sent successfully'' w2)))"

text \<open>
  The \<open>for _, message := range messages\<close> loop of \<open>ProcessPendingMessages\<close>, with its
  counter \<open>successCount\<close>. The slice holds pointers, so the messages are mutated in
  place: the loop returns them as they are when it ends.
\<close>

fun send_loop :: "Env \<Rightarrow> Message list \<Rightarrow> int \<Rightarrow> World \<Rightarrow> int \<times> Message list \<times> World" where
  "send_loop env [] successCount w = (successCount, [], w)"
| "send_loop env (message # rest) successCount w =
     (case SendMessage env message w of
        (Some err, message1, w1) \<Rightarrow>
          (case send_loop env rest successCount (log ErrorLevel ''Failed to send message'' w1) of
             (c, rest1, w2) \<Rightarrow> (c, message1 # rest1, w2))
      | (None, message1, w1) \<Rightarrow>
          (case send_loop env rest (successCount + 1) w1 of
             (c, rest1, w2) \<Rightarrow> (c, message1 # rest1, w2)))"

definition ProcessPendingMessages :: "Env \<Rightarrow> int \<Rightarrow> World \<Rightarrow> int \<times> error option \<times> World" where
  "ProcessPendingMessages env batchSize w0 =
     (let w = log InfoLevel ''Processing pending messages'' w0 in
      case GetPendingMessages env batchSize w of
        (Inl err, w1) \<Rightarrow> (0, Some err, w1)
      | (Inr messages, w1) \<Rightarrow>
          if length messages = 0
          then (0, None, log DebugLevel ''No pending messages to process'' w1)
          else
            (case send_loop env messages 0 w1 of
               (successCount, messages1, w2) \<Rightarrow>
                 (successCount, None, log InfoLevel ''Batch processing completed'' w2)))"


section \<open>schedulerUseCaseImpl (internal/application/usecases/scheduler\_usecase\_impl.go)\<close>

text \<open>
  The cron library (robfig/cron) is outside the repository. Of it the scheduler uses
  \<open>AddFunc\<close> (parse the expression; on success register an entry under the next entry
  id), \<open>Remove\<close>, \<open>Start\<close> and \<open>Stop\<close>; \<open>Stop\<close> does not wait for or cancel a
  callback that has already been launched.
\<close>

record Cron =
  cron_entries :: "nat list"
  cron_running :: bool
  cron_nextID :: nat

record Config =
  Interval :: duration
  MessagesPerBatch :: int

text \<open>
  \<open>sentCount\<close> is a Go \<open>int\<close>: a signed 64-bit integer whose addition wraps around.
  It is an \<open>int\<close> here with the wrap-around written out: \<open>in_int64\<close> is the range of the
  type and \<open>int64_wrap\<close> brings a sum back into it.
\<close>

definition in_int64 :: "int \<Rightarrow> bool" where
  "in_int64 z = (- (2 ^ 63) \<le> z \<and> z < 2 ^ 63)"

definition int64_wrap :: "int \<Rightarrow> int" where
  "int64_wrap z = (z + 2 ^ 63) mod 2 ^ 64 - 2 ^ 63"

record schedulerUseCaseImpl =
  config :: Config
  cron :: Cron
  entryID :: nat
  isRunning :: bool
  lastRun :: "time option"
  nextRun :: "time option"
  sentCount :: int

datatype SchedulerStatus = SchedulerStatusStopped | SchedulerStatusRunning

fun SchedulerStatus_string :: "SchedulerStatus \<Rightarrow> string" where
  "SchedulerStatus_string SchedulerStatusStopped = ''stopped''"
| "SchedulerStatus_string SchedulerStatusRunning = ''running''"

record SchedulerInfo =
  info_Status :: SchedulerStatus
  LastRun :: "time option"
  NextRun :: "time option"
  MessagesCount :: int
  info_Interval :: duration
  BatchSize :: int

definition NewSchedulerUseCase :: "Config \<Rightarrow> schedulerUseCaseImpl" where
  "NewSchedulerUseCase cfg =
     \<lparr>config = cfg,
      cron = \<lparr>cron_entries = [], cron_running = False, cron_nextID = 0\<rparr>,
      entryID = 0, isRunning = False, lastRun = None, nextRun = None, sentCount = 0\<rparr>"

definition StartScheduler ::
  "Env \<Rightarrow> schedulerUseCaseImpl \<Rightarrow> World \<Rightarrow> error option \<times> schedulerUseCaseImpl \<times> World" where
  "StartScheduler env uc w =
     (if isRunning uc then (Some ErrSchedulerAlreadyRunning, uc, w)
      else
        case cronParseErr env of
          Some err \<Rightarrow> (Some err, uc, log ErrorLevel ''Failed to add cron job'' w)
        | None \<Rightarrow>
            (let newID = Suc (cron_nextID (cron uc));
                 c1 = (cron uc)\<lparr>cron_entries := cron_entries (cron uc) @ [newID],
                                 cron_nextID := newID\<rparr>;
                 uc1 = uc\<lparr>entryID := newID, cron := c1\<lparr>cron_running := True\<rparr>,
                          isRunning := True, nextRun := Some (now w)\<rparr>;
                 w1 = (if cacheRepo env
                       then (case cache_SetSchedulerStatus env
                                    (SchedulerStatus_string SchedulerStatusRunning) w of
                               (Some err, w') \<Rightarrow> log WarnLevel ''Failed to cache scheduler status'' w'
                             | (None, w') \<Rightarrow> w')
                       else w)
             in (None, uc1, log InfoLevel ''Scheduler started'' w1)))"

definition StopScheduler ::
  "Env \<Rightarrow> schedulerUseCaseImpl \<Rightarrow> World \<Rightarrow> error option \<times> schedulerUseCaseImpl \<times> World" where
  "StopScheduler env uc w =
     (if \<not> isRunning uc then (Some ErrSchedulerNotRunning, uc, w)
      else
        (let c1 = (cron uc)\<lparr>cron_entries := filter (\<lambda>e. e \<noteq> entryID uc) (cron_entries (cron uc))\<rparr>;
             uc1 = uc\<lparr>cron := c1\<lparr>cron_running := False\<rparr>, isRunning := False, nextRun := None\<rparr>;
             w1 = (if cacheRepo env
                   then (case cache_SetSchedulerStatus env
                                (SchedulerStatus_string SchedulerStatusStopped) w of
                           (Some err, w') \<Rightarrow> log WarnLevel ''Failed to cache scheduler status'' w'
                         | (None, w') \<Rightarrow> w')
                   else w)
         in (None, uc1, log InfoLevel ''Scheduler stopped'' w1)))"

definition GetSchedulerStatus :: "schedulerUseCaseImpl \<Rightarrow> SchedulerInfo \<times> error option" where
  "GetSchedulerStatus uc =
     (\<lparr>info_Status = (if isRunning uc then SchedulerStatusRunning else SchedulerStatusStopped),
       LastRun = lastRun uc, NextRun = nextRun uc, MessagesCount = sentCount uc,
       info_Interval = Interval (config uc), BatchSize = MessagesPerBatch (config uc)\<rparr>, None)"

definition IsRunning :: "schedulerUseCaseImpl \<Rightarrow> bool" where
  "IsRunning uc = isRunning uc"

text \<open>
  \<open>processMessages\<close>, the timer callback, has three parts: the first critical section
  (last and next run), the batch call made without the lock, and the second critical
  section (the counter). \<open>processMessages\<close> is their composition when nothing runs in
  between.
\<close>

definition processMessages_lock1 :: "schedulerUseCaseImpl \<Rightarrow> World \<Rightarrow> schedulerUseCaseImpl" where
  "processMessages_lock1 uc w =
     uc\<lparr>lastRun := Some (now w), nextRun := Some (now w + Interval (config uc))\<rparr>"

definition processMessages_batch ::
  "Env \<Rightarrow> schedulerUseCaseImpl \<Rightarrow> World \<Rightarrow> (int \<times> error option) \<times> World" where
  "processMessages_batch env uc w =
     (case ProcessPendingMessages env (MessagesPerBatch (config uc))
             (log InfoLevel ''Starting scheduled message processing'' w) of
        (n, Some err, w1) \<Rightarrow> ((n, Some err), log ErrorLevel ''Failed to process pending messages'' w1)
      | (n, None, w1) \<Rightarrow> ((n, None), w1))"

definition processMessages_lock2 ::
  "int \<times> error option \<Rightarrow> schedulerUseCaseImpl \<Rightarrow> World \<Rightarrow> schedulerUseCaseImpl \<times> World" where
  "processMessages_lock2 r uc w =
     (case r of
        (n, Some err) \<Rightarrow> (uc, w)
      | (n, None) \<Rightarrow>
          (uc\<lparr>sentCount := int64_wrap (sentCount uc + n)\<rparr>,
           log InfoLevel ''Scheduled message processing completed'' w))"

definition processMessages :: "Env \<Rightarrow> schedulerUseCaseImpl \<Rightarrow> World \<Rightarrow> schedulerUseCaseImpl \<times> World" where
  "processMessages env uc w =
     (let uc1 = processMessages_lock1 uc w in
      case processMessages_batch env uc1 w of (r, w1) \<Rightarrow> processMessages_lock2 r uc1 w1)"

subsection \<open>The scheduler under concurrent requests\<close>

text \<open>
  Start and stop requests and timer callbacks interleave at the granularity of the
  mutex. A state of the running system is the scheduler struct, the world, the number of
  callbacks the timer has launched that have not yet entered their first critical
  section, the number of callbacks between their first critical section and their batch
  call, and the batch results waiting for the second critical section. The timer launches
  a callback only while the cron is started and the scheduler's entry is registered.
\<close>

record System =
  sched :: schedulerUseCaseImpl
  world :: World
  launched :: nat
  in_batch :: nat
  finished :: "(int \<times> error option) list"

definition init_system :: "Config \<Rightarrow> World \<Rightarrow> System" where
  "init_system cfg w =
     \<lparr>sched = NewSchedulerUseCase cfg, world = w, launched = 0, in_batch = 0, finished = []\<rparr>"

definition timer_fires :: "schedulerUseCaseImpl \<Rightarrow> bool" where
  "timer_fires uc = (cron_running (cron uc) \<and> entryID uc \<in> set (cron_entries (cron uc)))"

inductive sched_step :: "Env \<Rightarrow> System \<Rightarrow> System \<Rightarrow> bool" for env :: Env where
  step_start:
    "StartScheduler env (sched x) (world x) = (err, uc, w) \<Longrightarrow>
     sched_step env x (x\<lparr>sched := uc, world := w\<rparr>)"
| step_stop:
    "StopScheduler env (sched x) (world x) = (err, uc, w) \<Longrightarrow>
     sched_step env x (x\<lparr>sched := uc, world := w\<rparr>)"
| step_clock:
    "now (world x) \<le> t \<Longrightarrow> sched_step env x (x\<lparr>world := (world x)\<lparr>now := t\<rparr>\<rparr>)"
| step_fire:
    "timer_fires (sched x) \<Longrightarrow> sched_step env x (x\<lparr>launched := Suc (launched x)\<rparr>)"
| step_lock1:
    "launched x = Suc n \<Longrightarrow>
     sched_step env x (x\<lparr>sched := processMessages_lock1 (sched x) (world x),
                         launched := n, in_batch := Suc (in_batch x)\<rparr>)"
| step_batch:
    "in_batch x = Suc n \<Longrightarrow> processMessages_batch env (sched x) (world x) = (r, w) \<Longrightarrow>
     sched_step env x (x\<lparr>world := w, in_batch := n, finished := r # finished x\<rparr>)"
| step_lock2:
    "finished x = rs @ r # rs' \<Longrightarrow> processMessages_lock2 r (sched x) (world x) = (uc, w) \<Longrightarrow>
     sched_step env x (x\<lparr>sched := uc, world := w, finished := rs @ rs'\<rparr>)"

definition reachable :: "Env \<Rightarrow> Config \<Rightarrow> World \<Rightarrow> System \<Rightarrow> bool" where
  "reachable env cfg w0 x = (sched_step env)\<^sup>*\<^sup>* (init_system cfg w0) x"

text \<open>
  A step taken while the counter has room: none of the batch results that wait for the
  second critical section would take the 64-bit counter out of its range.
\<close>

definition bounded_step :: "Env \<Rightarrow> System \<Rightarrow> System \<Rightarrow> bool" where
  "bounded_step env x y =
     (sched_step env x y \<and> (\<forall>r\<in>set (finished x). in_int64 (sentCount (sched x) + fst r)))"

section \<open>Specification-side notions and concrete inputs\<close>

text \<open>
  The delivery client acknowledges the \<open>n\<close>-th request, made for message \<open>m\<close>, as
  sent: it returns no transport error and a response whose status is \<open>"sent"\<close>.
\<close>

definition acked :: "Env \<Rightarrow> nat \<Rightarrow> Message \<Rightarrow> bool" where
  "acked env n m =
     (case apiReply env n (PhoneNumber m) (Content m) of
        Inl err \<Rightarrow> False
      | Inr response \<Rightarrow> resp_Status response = ''sent'')"

text \<open>
  For a batch whose first request is the \<open>n\<close>-th one the API receives: the number of
  messages acknowledged as sent; and, when the first update of the batch is the \<open>d\<close>-th
  SQL statement, the number of messages acknowledged as sent whose update statement
  succeeds.
\<close>

fun acked_count :: "Env \<Rightarrow> nat \<Rightarrow> Message list \<Rightarrow> int" where
  "acked_count env n [] = 0"
| "acked_count env n (m # ms) = (if acked env n m then 1 else 0) + acked_count env (Suc n) ms"

fun persisted_count :: "Env \<Rightarrow> nat \<Rightarrow> nat \<Rightarrow> Message list \<Rightarrow> int" where
  "persisted_count env n d [] = 0"
| "persisted_count env n d (m # ms) =
     (if acked env n m \<and> dbFails env d = None then 1 else 0)
       + persisted_count env (Suc n) (Suc d) ms"

definition pending_rows :: "World \<Rightarrow> Message list" where
  "pending_rows w = filter (\<lambda>m. Status m = MessageStatusPending) (rows w)"

definition request_of :: "Message \<Rightarrow> string \<times> string" where
  "request_of m = (PhoneNumber m, Content m)"

definition example_message :: "uuid \<Rightarrow> time \<Rightarrow> Message" where
  "example_message i t =
     \<lparr>ID = i, Content = ''Test message'', PhoneNumber = ''+1234567890'',
      Status = MessageStatusPending, CreatedAt = t, UpdatedAt = t, SentAt = None,
      ExternalMessageID = None, ErrorMessage = None\<rparr>"

definition example_response :: SendMessageResponse where
  "example_response =
     \<lparr>resp_MessageID = ''ext_123'', resp_Status = ''sent'', resp_Message = ''Success'',
      resp_Error = []\<rparr>"

definition env_ok :: Env where
  "env_ok =
     \<lparr>dbFails = (\<lambda>n. None), rowFault = (\<lambda>n k. None), apiReply = (\<lambda>n p c. Inr example_response),
      cacheFails = (\<lambda>n. None), cacheRepo = True, cronParseErr = None\<rparr>"

definition env_update_fails :: Env where
  "env_update_fails =
     env_ok\<lparr>dbFails := (\<lambda>n. if n = 1 then Some (ExternalError ''database error'') else None)\<rparr>"

definition env_cache_fails :: Env where
  "env_cache_fails = env_ok\<lparr>cacheFails := (\<lambda>n. Some (ExternalError ''cache error''))\<rparr>"

definition env_api_fails_first :: Env where
  "env_api_fails_first =
     env_ok\<lparr>apiReply := (\<lambda>n p c. if n = 0 then Inl (ExternalError ''API error'')
                                else Inr example_response)\<rparr>"

definition world0 :: World where
  "world0 =
     \<lparr>rows = [example_message 1 30, example_message 2 10, example_message 3 20],
      dbOps = 0, apiRequests = [], cacheOps = 0, cacheStatus = None, cacheSent = [],
      logs = [], now = 1000\<rparr>"

definition world_empty :: World where
  "world_empty = world0\<lparr>rows := []\<rparr>"

definition cfg0 :: Config where
  "cfg0 = \<lparr>Interval = 120000000000, MessagesPerBatch = 2\<rparr>"

definition long_message :: "nat \<Rightarrow> string \<Rightarrow> Message" where
  "long_message n phone =
     (example_message 1 0)\<lparr>Content := replicate n (CHR ''a''), PhoneNumber := phone\<rparr>"

definition env_fetch_fails :: Env where
  "env_fetch_fails =
     env_ok\<lparr>dbFails := (\<lambda>n. if n = 0 then Some (ExternalError ''database error'') else None)\<rparr>"

text \<open>
  The world once \<open>SendMessage\<close> has logged its first line and the delivery client has
  received the request for message \<open>m\<close>.
\<close>

definition after_api :: "Message \<Rightarrow> World \<Rightarrow> World" where
  "after_api m w = (log InfoLevel ''Sending message'' w)\<lparr>apiRequests := apiRequests w @ [request_of m]\<rparr>"

text \<open>
  What the query of \<open>GetPendingMessages\<close> selects when it succeeds.
\<close>

definition batch_of :: "World \<Rightarrow> int \<Rightarrow> Message list" where
  "batch_of w batchSize = take (nat batchSize) (sort_key CreatedAt (pending_rows w))"

text \<open>
  The part of the world outside the cache and the log: the table, the statement and
  command counters, the requests the API has received, the clock.
\<close>

definition core :: "World \<Rightarrow> Message list \<times> nat \<times> (string \<times> string) list \<times> nat \<times> time" where
  "core w = (rows w, dbOps w, apiRequests w, cacheOps w, now w)"

text \<open>
  A scheduler that has been started once on \<open>world0\<close>, and the system in which the timer
  has launched one callback that a stop request then overtakes: start, the timer fires,
  stop, and only then the callback enters its first critical section; after that the
  callback makes its batch call and adds the count in its second critical section.
\<close>

definition started_scheduler :: schedulerUseCaseImpl where
  "started_scheduler = fst (snd (StartScheduler env_ok (NewSchedulerUseCase cfg0) world0))"

definition started_world :: World where
  "started_world = snd (snd (StartScheduler env_ok (NewSchedulerUseCase cfg0) world0))"

definition sys_started :: System where
  "sys_started = (init_system cfg0 world0)\<lparr>sched := started_scheduler, world := started_world\<rparr>"

definition sys_fired :: System where
  "sys_fired = sys_started\<lparr>launched := Suc (launched sys_started)\<rparr>"

definition sys_stopped :: System where
  "sys_stopped =
     sys_fired\<lparr>sched := fst (snd (StopScheduler env_ok (sched sys_fired) (world sys_fired))),
               world := snd (snd (StopScheduler env_ok (sched sys_fired) (world sys_fired)))\<rparr>"

definition sys_late_tick :: System where
  "sys_late_tick =
     sys_stopped\<lparr>sched := processMessages_lock1 (sched sys_stopped) (world sys_stopped),
                 launched := 0, in_batch := Suc (in_batch sys_stopped)\<rparr>"

definition sys_batched :: System where
  "sys_batched =
     sys_late_tick\<lparr>world := snd (processMessages_batch env_ok (sched sys_late_tick)
                                   (world sys_late_tick)),
                   in_batch := 0,
                   finished := fst (processMessages_batch env_ok (sched sys_late_tick)
                                      (world sys_late_tick)) # finished sys_late_tick\<rparr>"

definition sys_counted :: System where
  "sys_counted =
     sys_batched\<lparr>sched := fst (processMessages_lock2 (hd (finished sys_batched))
                                 (sched sys_batched) (world sys_batched)),
                 world := snd (processMessages_lock2 (hd (finished sys_batched))
                                 (sched sys_batched) (world sys_batched)),
                 finished := []\<rparr>"

section \<open>Helper lemmas: sending one message and the batch loop\<close>

lemma log_simps:
  "rows (log l s w) = rows w" "dbOps (log l s w) = dbOps w"
  "apiRequests (log l s w) = apiRequests w" "cacheOps (log l s w) = cacheOps w"
  "now (log l s w) = now w" "cacheStatus (log l s w) = cacheStatus w"
  "cacheSent (log l s w) = cacheSent w" "logs (log l s w) = logs w @ [(l, s)]"
  by (simp_all add: log_def)

lemma repo_Update_None_iff:
  "fst (repo_Update env m w) = None \<longleftrightarrow>
     dbFails env (dbOps w) = None \<and> ID m \<in> ID ` set (rows w)"
proof -
  have "filter (\<lambda>r. ID r = ID m) (rows w) = [] \<longleftrightarrow> ID m \<notin> ID ` set (rows w)"
    unfolding filter_empty_conv image_iff by metis
  then show ?thesis
    by (cases "dbFails env (dbOps w)") (simp_all add: repo_Update_def Let_def)
qed

lemma repo_Update_frame:
  "dbOps (snd (repo_Update env m w)) = Suc (dbOps w)"
  "apiRequests (snd (repo_Update env m w)) = apiRequests w"
  "cacheOps (snd (repo_Update env m w)) = cacheOps w"
  "now (snd (repo_Update env m w)) = now w"
  "map ID (rows (snd (repo_Update env m w))) = map ID (rows w)"
  by (auto simp: repo_Update_def Let_def update_row_def split: option.splits)

lemma MarkAs_simps:
  "ID (MarkAsSent t x m) = ID m" "ID (MarkAsFailed t s m) = ID m"
  "Status (MarkAsSent t x m) = MessageStatusSent" "Status (MarkAsFailed t s m) = MessageStatusFailed"
  "SentAt (MarkAsSent t x m) = Some t" "ErrorMessage (MarkAsFailed t s m) = Some s"
  by (simp_all add: MarkAsSent_def MarkAsFailed_def)

lemma cache_SetMessageSent_frame:
  "dbOps (snd (cache_SetMessageSent env i x t w)) = dbOps w"
  "apiRequests (snd (cache_SetMessageSent env i x t w)) = apiRequests w"
  "rows (snd (cache_SetMessageSent env i x t w)) = rows w"
  "now (snd (cache_SetMessageSent env i x t w)) = now w"
  "cacheOps (snd (cache_SetMessageSent env i x t w)) = Suc (cacheOps w)"
  by (auto simp: cache_SetMessageSent_def Let_def split: option.splits)

lemma after_api_simps:
  "rows (after_api m w) = rows w" "dbOps (after_api m w) = dbOps w"
  "apiRequests (after_api m w) = apiRequests w @ [request_of m]" "cacheOps (after_api m w) = cacheOps w"
  "now (after_api m w) = now w"
  by (simp_all add: after_api_def log_def)

lemma SendMessage_Inl:
  assumes "apiReply env (length (apiRequests w)) (PhoneNumber m) (Content m) = Inl e"
  shows "SendMessage env m w =
     (let message1 = MarkAsFailed (now w) (Error e) m;
          (updateErr, w2) = repo_Update env message1 (after_api m w);
          w3 = (if updateErr \<noteq> None
                then log ErrorLevel ''Failed to update message status after API error'' w2 else w2)
      in (Some e, message1, log ErrorLevel ''Failed to send message via API'' w3))"
  using assms
  by (simp add: SendMessage_def api_SendMessage_def after_api_def request_of_def log_def Let_def)

lemma SendMessage_rejected:
  assumes "apiReply env (length (apiRequests w)) (PhoneNumber m) (Content m) = Inr r"
    and "resp_Status r \<noteq> ''sent''"
  shows "SendMessage env m w =
     (let errorMsg = (if resp_Error r = [] then ''Unknown error from API'' else resp_Error r);
          message1 = MarkAsFailed (now w) errorMsg m;
          (updateErr, w2) = repo_Update env message1 (after_api m w);
          w3 = (if updateErr \<noteq> None
                then log ErrorLevel ''Failed to update message status after API failure'' w2 else w2)
      in (Some (APIReturnedError errorMsg), message1, w3))"
  using assms
  by (simp add: SendMessage_def api_SendMessage_def after_api_def request_of_def log_def Let_def)

lemma SendMessage_acked:
  assumes "apiReply env (length (apiRequests w)) (PhoneNumber m) (Content m) = Inr r"
    and "resp_Status r = ''sent''"
  shows "SendMessage env m w =
     (let message1 = MarkAsSent (now w) (resp_MessageID r) m in
      case repo_Update env message1 (after_api m w) of
        (Some err, w2) \<Rightarrow>
          (Some err, message1,
           log ErrorLevel ''Failed to update message status after successful send'' w2)
      | (None, w2) \<Rightarrow>
          if cacheRepo env
          then (case cache_SetMessageSent env (ID m) (resp_MessageID r) (now w) w2 of
                  (Some err, w3) \<Rightarrow>
                    (None, message1,
                     log InfoLevel ''Message sent successfully''
                       (log WarnLevel ''Failed to cache sent message info'' w3))
                | (None, w3) \<Rightarrow> (None, message1, log InfoLevel ''Message sent successfully'' w3))
          else (None, message1, log InfoLevel ''Message sent successfully'' w2))"
  using assms
  by (auto simp add: SendMessage_def api_SendMessage_def after_api_def request_of_def log_def Let_def MarkAs_simps
      split: prod.splits option.splits)

lemma SendMessage_cases:
  obtains (transport) e where "apiReply env (length (apiRequests w)) (PhoneNumber m) (Content m) = Inl e"
      "\<not> acked env (length (apiRequests w)) m"
  | (rejected) r where "apiReply env (length (apiRequests w)) (PhoneNumber m) (Content m) = Inr r"
      "resp_Status r \<noteq> ''sent''" "\<not> acked env (length (apiRequests w)) m"
  | (acked) r where "apiReply env (length (apiRequests w)) (PhoneNumber m) (Content m) = Inr r"
      "resp_Status r = ''sent''" "acked env (length (apiRequests w)) m"
  by (cases "apiReply env (length (apiRequests w)) (PhoneNumber m) (Content m)")
     (auto simp: acked_def)

lemma SendMessage_None_iff:
  "fst (SendMessage env m w) = None \<longleftrightarrow>
     acked env (length (apiRequests w)) m \<and> dbFails env (dbOps w) = None
       \<and> ID m \<in> ID ` set (rows w)"
proof (cases env w m rule: SendMessage_cases)
  case (transport e)
  then show ?thesis by (simp add: SendMessage_Inl Let_def split: prod.splits)
next
  case (rejected r)
  then show ?thesis by (simp add: SendMessage_rejected Let_def split: prod.splits)
next
  case (acked r)
  have "fst (repo_Update env (MarkAsSent (now w) (resp_MessageID r) m) (after_api m w)) = None
     \<longleftrightarrow> dbFails env (dbOps w) = None \<and> ID m \<in> ID ` set (rows w)"
    by (simp add: repo_Update_None_iff after_api_simps MarkAs_simps)
  then show ?thesis using acked
    by (auto simp add: SendMessage_acked Let_def split: prod.splits option.splits)
qed

lemma SendMessage_frame:
  "dbOps (snd (snd (SendMessage env m w))) = Suc (dbOps w)"
  "apiRequests (snd (snd (SendMessage env m w))) = apiRequests w @ [request_of m]"
  "map ID (rows (snd (snd (SendMessage env m w)))) = map ID (rows w)"
  "now (snd (snd (SendMessage env m w))) = now w"
proof -
  let ?P = "\<lambda>w'. dbOps w' = Suc (dbOps w) \<and> apiRequests w' = apiRequests w @ [request_of m]
      \<and> map ID (rows w') = map ID (rows w) \<and> now w' = now w"
  have upd: "?P (snd (repo_Update env m' (after_api m w)))" for m'
    by (simp add: repo_Update_frame after_api_simps)
  have "?P (snd (snd (SendMessage env m w)))"
  proof (cases env w m rule: SendMessage_cases)
    case (transport e)
    obtain u w2 where u: "repo_Update env (MarkAsFailed (now w) (Error e) m) (after_api m w) = (u, w2)"
      by (cases "repo_Update env (MarkAsFailed (now w) (Error e) m) (after_api m w)")
    with upd[of "MarkAsFailed (now w) (Error e) m"] have w2: "?P w2" by simp
    show ?thesis using transport u w2
      by (simp add: SendMessage_Inl Let_def log_simps)
  next
    case (rejected r)
    let ?msg = "if resp_Error r = [] then ''Unknown error from API'' else resp_Error r"
    obtain u w2 where u: "repo_Update env (MarkAsFailed (now w) ?msg m) (after_api m w) = (u, w2)"
      by (cases "repo_Update env (MarkAsFailed (now w) ?msg m) (after_api m w)")
    with upd[of "MarkAsFailed (now w) ?msg m"] have w2: "?P w2" by simp
    show ?thesis using rejected u w2
      by (simp add: SendMessage_rejected Let_def log_simps)
  next
    case (acked r)
    obtain u w2 where u: "repo_Update env (MarkAsSent (now w) (resp_MessageID r) m) (after_api m w) = (u, w2)"
      by (cases "repo_Update env (MarkAsSent (now w) (resp_MessageID r) m) (after_api m w)")
    with upd[of "MarkAsSent (now w) (resp_MessageID r) m"] have w2: "?P w2" by simp
    obtain c w3 where c: "cache_SetMessageSent env (ID m) (resp_MessageID r) (now w) w2 = (c, w3)"
      by (cases "cache_SetMessageSent env (ID m) (resp_MessageID r) (now w) w2")
    with cache_SetMessageSent_frame[of env "ID m" "resp_MessageID r" "now w" w2] w2
    have w3: "?P w3" by simp
    show ?thesis using acked u c w2 w3
      by (cases u; cases c) (simp_all add: SendMessage_acked Let_def log_simps)
  qed
  then show "dbOps (snd (snd (SendMessage env m w))) = Suc (dbOps w)"
  "apiRequests (snd (snd (SendMessage env m w))) = apiRequests w @ [request_of m]"
  "map ID (rows (snd (snd (SendMessage env m w)))) = map ID (rows w)"
  "now (snd (snd (SendMessage env m w))) = now w" by simp_all
qed

lemma SendMessage_not_acked:
  assumes "\<not> acked env (length (apiRequests w)) m"
  shows "fst (SendMessage env m w) \<noteq> None"
    and "Status (fst (snd (SendMessage env m w))) = MessageStatusFailed"
    and "ErrorMessage (fst (snd (SendMessage env m w))) \<noteq> None"
    and "ID (fst (snd (SendMessage env m w))) = ID m"
proof -
  have "fst (SendMessage env m w) \<noteq> None \<and> Status (fst (snd (SendMessage env m w))) = MessageStatusFailed
    \<and> ErrorMessage (fst (snd (SendMessage env m w))) \<noteq> None \<and> ID (fst (snd (SendMessage env m w))) = ID m"
  proof (cases env w m rule: SendMessage_cases)
    case (transport e)
    then show ?thesis by (simp add: SendMessage_Inl Let_def MarkAs_simps split: prod.splits)
  next
    case (rejected r)
    then show ?thesis by (simp add: SendMessage_rejected Let_def MarkAs_simps split: prod.splits)
  next
    case (acked r)
    with assms show ?thesis by simp
  qed
  then show "fst (SendMessage env m w) \<noteq> None"
    and "Status (fst (snd (SendMessage env m w))) = MessageStatusFailed"
    and "ErrorMessage (fst (snd (SendMessage env m w))) \<noteq> None"
    and "ID (fst (snd (SendMessage env m w))) = ID m" by simp_all
qed


lemma send_loop_Cons:
  "send_loop env (m # ms) c w =
     (let r = SendMessage env m w;
          r' = (if fst r = None then send_loop env ms (c + 1) (snd (snd r))
                else send_loop env ms c (log ErrorLevel ''Failed to send message'' (snd (snd r))))
      in (fst r', fst (snd r) # fst (snd r'), snd (snd r')))"
  by (cases "SendMessage env m w") (auto simp: Let_def split: prod.splits option.splits)

lemma send_loop_world:
  "apiRequests (snd (snd (send_loop env msgs c w))) = apiRequests w @ map request_of msgs \<and>
   dbOps (snd (snd (send_loop env msgs c w))) = dbOps w + length msgs \<and>
   map ID (rows (snd (snd (send_loop env msgs c w)))) = map ID (rows w) \<and>
   now (snd (snd (send_loop env msgs c w))) = now w \<and>
   length (fst (snd (send_loop env msgs c w))) = length msgs"
proof (induction msgs arbitrary: c w)
  case Nil
  show ?case by simp
next
  case (Cons m ms)
  show ?case
    by (simp only: send_loop_Cons Let_def) (simp add: Cons.IH SendMessage_frame log_simps)
qed

lemma send_loop_count:
  assumes "\<forall>m\<in>set msgs. ID m \<in> ID ` set (rows w)"
  shows "fst (send_loop env msgs c w)
           = c + persisted_count env (length (apiRequests w)) (dbOps w) msgs"
  using assms
proof (induction msgs arbitrary: c w)
  case Nil
  show ?case by simp
next
  case (Cons m ms)
  let ?w1 = "snd (snd (SendMessage env m w))"
  have ids: "ID ` set (rows ?w1) = ID ` set (rows w)"
    using SendMessage_frame(3)[of env m w] by (metis set_map)
  have a: "\<forall>x\<in>set ms. ID x \<in> ID ` set (rows ?w1)"
    and b: "\<forall>x\<in>set ms. ID x \<in> ID ` set (rows (log ErrorLevel ''Failed to send message'' ?w1))"
    using Cons.prems ids by (simp_all add: log_simps)
  have m: "ID m \<in> ID ` set (rows w)" using Cons.prems by simp
  show ?case
    using Cons.IH[OF a] Cons.IH[OF b] m
    by (simp only: send_loop_Cons Let_def)
       (simp add: SendMessage_None_iff SendMessage_frame log_simps)
qed

lemma send_loop_failed:
  assumes "i < length msgs" "\<not> acked env (length (apiRequests w) + i) (msgs ! i)"
  shows "Status (fst (snd (send_loop env msgs c w)) ! i) = MessageStatusFailed \<and>
         ErrorMessage (fst (snd (send_loop env msgs c w)) ! i) \<noteq> None"
  using assms
proof (induction msgs arbitrary: c w i)
  case Nil
  then show ?case by simp
next
  case (Cons m ms)
  show ?case
  proof (cases i)
    case 0
    with Cons.prems show ?thesis
      by (simp only: send_loop_Cons Let_def) (simp add: SendMessage_not_acked)
  next
    case (Suc j)
    with Cons.prems have j: "j < length ms" by simp
    have a: "\<not> acked env (length (apiRequests w') + j) (ms ! j)"
      if "length (apiRequests w') = Suc (length (apiRequests w))" for w'
      using Cons.prems(2) Suc that by simp
    show ?thesis using Suc Cons.IH[OF j a]
      by (simp only: send_loop_Cons Let_def) (simp add: SendMessage_frame log_simps)
  qed
qed

lemma log_mono: "set (logs w) \<subseteq> set (logs (log l s w))"
  by (auto simp: log_def)


lemma repo_Update_logs: "logs (snd (repo_Update env m w)) = logs w"
  by (auto simp: repo_Update_def Let_def split: option.splits)

lemma cache_SetMessageSent_logs: "logs (snd (cache_SetMessageSent env i x t w)) = logs w"
  by (auto simp: cache_SetMessageSent_def Let_def split: option.splits)

lemma after_api_logs: "logs (after_api m w) = logs w @ [(InfoLevel, ''Sending message'')]"
  by (simp add: after_api_def log_def)

lemma SendMessage_logs_mono: "set (logs w) \<subseteq> set (logs (snd (snd (SendMessage env m w))))"
proof (cases env w m rule: SendMessage_cases)
  case (transport e)
  obtain u w2 where u: "repo_Update env (MarkAsFailed (now w) (Error e) m) (after_api m w) = (u, w2)"
    by (cases "repo_Update env (MarkAsFailed (now w) (Error e) m) (after_api m w)")
  with repo_Update_logs[of env "MarkAsFailed (now w) (Error e) m" "after_api m w"]
  have "logs w2 = logs w @ [(InfoLevel, ''Sending message'')]" by (simp add: after_api_logs)
  then show ?thesis using transport u
    by (auto simp add: SendMessage_Inl Let_def log_simps)
next
  case (rejected r)
  let ?msg = "if resp_Error r = [] then ''Unknown error from API'' else resp_Error r"
  obtain u w2 where u: "repo_Update env (MarkAsFailed (now w) ?msg m) (after_api m w) = (u, w2)"
    by (cases "repo_Update env (MarkAsFailed (now w) ?msg m) (after_api m w)")
  with repo_Update_logs[of env "MarkAsFailed (now w) ?msg m" "after_api m w"]
  have "logs w2 = logs w @ [(InfoLevel, ''Sending message'')]" by (simp add: after_api_logs)
  then show ?thesis using rejected u
    by (auto simp add: SendMessage_rejected Let_def log_simps)
next
  case (acked r)
  obtain u w2 where u: "repo_Update env (MarkAsSent (now w) (resp_MessageID r) m) (after_api m w) = (u, w2)"
    by (cases "repo_Update env (MarkAsSent (now w) (resp_MessageID r) m) (after_api m w)")
  with repo_Update_logs[of env "MarkAsSent (now w) (resp_MessageID r) m" "after_api m w"]
  have w2: "logs w2 = logs w @ [(InfoLevel, ''Sending message'')]" by (simp add: after_api_logs)
  obtain c w3 where c: "cache_SetMessageSent env (ID m) (resp_MessageID r) (now w) w2 = (c, w3)"
    by (cases "cache_SetMessageSent env (ID m) (resp_MessageID r) (now w) w2")
  with cache_SetMessageSent_logs[of env "ID m" "resp_MessageID r" "now w" w2] w2
  have w3: "logs w3 = logs w @ [(InfoLevel, ''Sending message'')]" by simp
  show ?thesis using acked u c w2 w3
    by (cases u; cases c) (auto simp add: SendMessage_acked Let_def log_simps)
qed

lemma SendMessage_persist_failure:
  assumes "acked env (length (apiRequests w)) m"
    and "dbFails env (dbOps w) \<noteq> None"
  shows "fst (SendMessage env m w) \<noteq> None"
    and "(ErrorLevel, ''Failed to update message status after successful send'')
           \<in> set (logs (snd (snd (SendMessage env m w))))"
proof -
  show "fst (SendMessage env m w) \<noteq> None"
    using assms by (simp add: SendMessage_None_iff)
  show "(ErrorLevel, ''Failed to update message status after successful send'')
           \<in> set (logs (snd (snd (SendMessage env m w))))"
  proof (cases env w m rule: SendMessage_cases)
    case (acked r)
    obtain u w2 where u: "repo_Update env (MarkAsSent (now w) (resp_MessageID r) m) (after_api m w) = (u, w2)"
      by (cases "repo_Update env (MarkAsSent (now w) (resp_MessageID r) m) (after_api m w)")
    with repo_Update_None_iff[of env "MarkAsSent (now w) (resp_MessageID r) m" "after_api m w"] assms(2)
    have "u \<noteq> None" by (simp add: after_api_simps)
    then show ?thesis using acked u
      by (auto simp add: SendMessage_acked Let_def log_simps)
  qed (use assms in simp_all)
qed

lemma send_loop_logs_mono:
  "set (logs w) \<subseteq> set (logs (snd (snd (send_loop env msgs c w))))"
proof (induction msgs arbitrary: c w)
  case Nil
  show ?case by simp
next
  case (Cons m ms)
  have 1: "set (logs w) \<subseteq> set (logs (snd (snd (SendMessage env m w))))"
    by (rule SendMessage_logs_mono)
  have 2: "set (logs (snd (snd (SendMessage env m w))))
      \<subseteq> set (logs (log ErrorLevel ''Failed to send message'' (snd (snd (SendMessage env m w)))))"
    by (rule log_mono)
  show ?case
    using 1 2 Cons.IH[where c = "c + 1" and w = "snd (snd (SendMessage env m w))"]
      Cons.IH[where c = c and w = "log ErrorLevel ''Failed to send message'' (snd (snd (SendMessage env m w)))"]
    by (simp only: send_loop_Cons Let_def) (auto split: if_splits)
qed

lemma send_loop_persist_failure_logged:
  assumes "i < length msgs" "acked env (length (apiRequests w) + i) (msgs ! i)"
    "dbFails env (dbOps w + i) \<noteq> None"
  shows "(ErrorLevel, ''Failed to update message status after successful send'')
           \<in> set (logs (snd (snd (send_loop env msgs c w))))"
  using assms
proof (induction msgs arbitrary: c w i)
  case Nil
  then show ?case by simp
next
  case (Cons m ms)
  let ?e = "(ErrorLevel, ''Failed to update message status after successful send'')"
  let ?w1 = "snd (snd (SendMessage env m w))"
  show ?case
  proof (cases i)
    case 0
    with Cons.prems have "fst (SendMessage env m w) \<noteq> None" "?e \<in> set (logs ?w1)"
      using SendMessage_persist_failure[of env w m] by simp_all
    moreover have "set (logs ?w1) \<subseteq> set (logs (log ErrorLevel ''Failed to send message'' ?w1))"
      by (rule log_mono)
    ultimately show ?thesis
      using send_loop_logs_mono[of "log ErrorLevel ''Failed to send message'' ?w1" env ms c]
      by (simp only: send_loop_Cons Let_def) auto
  next
    case (Suc j)
    with Cons.prems have j: "j < length ms" by simp
    have a: "acked env (length (apiRequests w') + j) (ms ! j)"
      if "length (apiRequests w') = Suc (length (apiRequests w))" for w'
      using Cons.prems(2) Suc that by simp
    have d: "dbFails env (dbOps w' + j) \<noteq> None" if "dbOps w' = Suc (dbOps w)" for w'
      using Cons.prems(3) Suc that by simp
    have 1: "?e \<in> set (logs (snd (snd (send_loop env ms (c + 1) ?w1))))"
      by (rule Cons.IH[OF j a d]) (simp_all add: SendMessage_frame)
    have 2: "?e \<in> set (logs (snd (snd (send_loop env ms c (log ErrorLevel ''Failed to send message'' ?w1)))))"
      by (rule Cons.IH[OF j a d]) (simp_all add: SendMessage_frame log_simps)
    show ?thesis using 1 2
      by (simp only: send_loop_Cons Let_def) simp
  qed
qed

lemma scan_rows_prefix:
  "scan_rows fault k rs acc = Inr ms \<Longrightarrow> \<exists>n. ms = acc @ take n rs"
proof (induction rs arbitrary: k acc)
  case Nil
  then show ?case by simp
next
  case (Cons r rs)
  show ?case
  proof (cases "fault k")
    case None
    with Cons.prems have "scan_rows fault (Suc k) rs (acc @ [r]) = Inr ms" by simp
    from Cons.IH[OF this] obtain n where "ms = (acc @ [r]) @ take n rs" by blast
    then have "ms = acc @ take (Suc n) (r # rs)" by simp
    then show ?thesis by blast
  next
    case (Some f)
    with Cons.prems have "ms = acc @ take 0 (r # rs)" by (cases f) simp_all
    then show ?thesis by blast
  qed
qed

lemma scan_rows_no_fault:
  "\<forall>j. fault j = None \<Longrightarrow> scan_rows fault k rs acc = Inr (acc @ rs)"
  by (induction rs arbitrary: k acc) simp_all

lemma GetPendingMessages_fst:
  "fst (GetPendingMessages env limit w) =
     (case dbFails env (dbOps w) of
        Some e \<Rightarrow> Inl (Wrapped ''failed to get pending messages'' e)
      | None \<Rightarrow>
          if limit < 0
          then Inl (Wrapped ''failed to get pending messages''
                      (ExternalError ''LIMIT must not be negative''))
          else scan_rows (rowFault env (dbOps w)) 0 (batch_of w limit) [])"
proof -
  obtain r w1 where r: "repo_GetPendingMessages env limit w = (r, w1)"
    by (cases "repo_GetPendingMessages env limit w")
  then have "fst (GetPendingMessages env limit w) = r"
    by (cases r) (simp_all add: GetPendingMessages_def)
  with r show ?thesis
    by (auto simp add: repo_GetPendingMessages_def Let_def batch_of_def pending_rows_def
        split: option.splits if_splits)
qed

lemma GetPendingMessages_fetched:
  assumes "fst (GetPendingMessages env limit w) = Inr msgs"
  shows "\<exists>n. msgs = take n (batch_of w limit)"
proof -
  from assms have "scan_rows (rowFault env (dbOps w)) 0 (batch_of w limit) [] = Inr msgs"
    by (auto simp: GetPendingMessages_fst split: option.splits if_splits)
  from scan_rows_prefix[OF this] show ?thesis by simp
qed

lemma GetPendingMessages_complete:
  assumes "dbFails env (dbOps w) = None" "0 \<le> limit" "\<forall>k. rowFault env (dbOps w) k = None"
  shows "fst (GetPendingMessages env limit w) = Inr (batch_of w limit)"
  using assms by (simp add: GetPendingMessages_fst scan_rows_no_fault)

lemma GetPendingMessages_snd:
  "rows (snd (GetPendingMessages env limit w)) = rows w"
  "dbOps (snd (GetPendingMessages env limit w)) = Suc (dbOps w)"
  "apiRequests (snd (GetPendingMessages env limit w)) = apiRequests w"
  "now (snd (GetPendingMessages env limit w)) = now w"
  "set (logs w) \<subseteq> set (logs (snd (GetPendingMessages env limit w)))"
  by (auto simp add: GetPendingMessages_def repo_GetPendingMessages_def Let_def log_def
      split: option.splits sum.splits)

lemma GetPendingMessages_log:
  "fst (GetPendingMessages env limit (log l s w)) = fst (GetPendingMessages env limit w)"
  by (simp add: GetPendingMessages_fst log_simps batch_of_def pending_rows_def split: option.splits)

lemma ProcessPendingMessages_unfold:
  "ProcessPendingMessages env batchSize w =
     (let g = GetPendingMessages env batchSize (log InfoLevel ''Processing pending messages'' w) in
      case fst (GetPendingMessages env batchSize w) of
        Inl err \<Rightarrow> (0, Some err, snd g)
      | Inr messages \<Rightarrow>
          if messages = []
          then (0, None, log DebugLevel ''No pending messages to process'' (snd g))
          else (fst (send_loop env messages 0 (snd g)), None,
                log InfoLevel ''Batch processing completed''
                  (snd (snd (send_loop env messages 0 (snd g))))))"
proof -
  obtain r w1 where g: "GetPendingMessages env batchSize (log InfoLevel ''Processing pending messages'' w) = (r, w1)"
    by (cases "GetPendingMessages env batchSize (log InfoLevel ''Processing pending messages'' w)")
  then have "fst (GetPendingMessages env batchSize w) = r"
    using GetPendingMessages_log[of env batchSize InfoLevel "''Processing pending messages''" w] by simp
  then show ?thesis using g
    by (cases r) (auto simp: ProcessPendingMessages_def Let_def split: prod.splits)
qed

section \<open>Helper lemmas: the batch processor\<close>

lemma batch_of_subset: "set (batch_of w n) \<subseteq> set (rows w)"
proof -
  have "set (batch_of w n) \<subseteq> set (sort_key CreatedAt (pending_rows w))"
    unfolding batch_of_def by (rule set_take_subset)
  then show ?thesis by (auto simp: pending_rows_def)
qed

lemma fetched_in_rows:
  assumes "fst (GetPendingMessages env batchSize w) = Inr msgs"
  shows "set msgs \<subseteq> set (rows w)"
proof -
  from GetPendingMessages_fetched[OF assms] obtain n where "msgs = take n (batch_of w batchSize)"
    by blast
  then have "set msgs \<subseteq> set (batch_of w batchSize)" by (simp add: set_take_subset)
  with batch_of_subset[of w batchSize] show ?thesis by blast
qed

lemma ProcessPendingMessages_fetched:
  assumes "fst (GetPendingMessages env batchSize w) = Inr msgs"
  shows "fst (ProcessPendingMessages env batchSize w)
           = persisted_count env (length (apiRequests w)) (Suc (dbOps w)) msgs"
    and "fst (snd (ProcessPendingMessages env batchSize w)) = None"
    and "apiRequests (snd (snd (ProcessPendingMessages env batchSize w)))
           = apiRequests w @ map request_of msgs"
    and "map ID (rows (snd (snd (ProcessPendingMessages env batchSize w)))) = map ID (rows w)"
    and "dbOps (snd (snd (ProcessPendingMessages env batchSize w))) = Suc (dbOps w) + length msgs"
proof -
  let ?g = "GetPendingMessages env batchSize (log InfoLevel ''Processing pending messages'' w)"
  have g: "rows (snd ?g) = rows w" "dbOps (snd ?g) = Suc (dbOps w)"
    "apiRequests (snd ?g) = apiRequests w"
    by (simp_all add: GetPendingMessages_snd log_simps)
  have ids: "\<forall>m\<in>set msgs. ID m \<in> ID ` set (rows (snd ?g))"
    using fetched_in_rows[OF assms] g by auto
  have c: "fst (send_loop env msgs 0 (snd ?g))
      = persisted_count env (length (apiRequests w)) (Suc (dbOps w)) msgs"
    using send_loop_count[OF ids, of env 0] g by simp
  show "fst (ProcessPendingMessages env batchSize w)
           = persisted_count env (length (apiRequests w)) (Suc (dbOps w)) msgs"
    using assms c by (cases msgs) (simp_all add: ProcessPendingMessages_unfold Let_def)
  show "fst (snd (ProcessPendingMessages env batchSize w)) = None"
    using assms by (simp add: ProcessPendingMessages_unfold Let_def)
  show "apiRequests (snd (snd (ProcessPendingMessages env batchSize w)))
           = apiRequests w @ map request_of msgs"
    using assms g send_loop_world[of env msgs 0 "snd ?g"]
    by (simp add: ProcessPendingMessages_unfold Let_def log_simps)
  show "map ID (rows (snd (snd (ProcessPendingMessages env batchSize w)))) = map ID (rows w)"
    using assms g send_loop_world[of env msgs 0 "snd ?g"]
    by (simp add: ProcessPendingMessages_unfold Let_def log_simps)
  show "dbOps (snd (snd (ProcessPendingMessages env batchSize w))) = Suc (dbOps w) + length msgs"
    using assms g send_loop_world[of env msgs 0 "snd ?g"]
    by (simp add: ProcessPendingMessages_unfold Let_def log_simps)
qed

lemma ProcessPendingMessages_persist_failure_logged:
  assumes "fst (GetPendingMessages env batchSize w) = Inr msgs"
    and "i < length msgs" "acked env (length (apiRequests w) + i) (msgs ! i)"
    and "dbFails env (Suc (dbOps w) + i) \<noteq> None"
  shows "(ErrorLevel, ''Failed to update message status after successful send'')
           \<in> set (logs (snd (snd (ProcessPendingMessages env batchSize w))))"
proof -
  let ?g = "GetPendingMessages env batchSize (log InfoLevel ''Processing pending messages'' w)"
  have g: "dbOps (snd ?g) = Suc (dbOps w)" "apiRequests (snd ?g) = apiRequests w"
    by (simp_all add: GetPendingMessages_snd log_simps)
  have "(ErrorLevel, ''Failed to update message status after successful send'')
           \<in> set (logs (snd (snd (send_loop env msgs 0 (snd ?g)))))"
    using assms(2-4) g by (intro send_loop_persist_failure_logged) simp_all
  moreover have "msgs \<noteq> []" using assms(2) by auto
  ultimately show ?thesis using assms(1)
    by (simp add: ProcessPendingMessages_unfold Let_def log_simps)
qed

lemma update_row_failed:
  "Status m = MessageStatusFailed \<Longrightarrow> ID (update_row m r) = ID m \<Longrightarrow>
   Status (update_row m r) = MessageStatusFailed"
  by (simp add: update_row_def split: if_splits)

lemma repo_Update_rows_failed:
  assumes "dbFails env (dbOps w) = None" "Status m = MessageStatusFailed"
    and "r \<in> set (rows (snd (repo_Update env m w)))" "ID r = ID m"
  shows "Status r = MessageStatusFailed"
proof (cases "filter (\<lambda>r. ID r = ID m) (rows w) = []")
  case True
  with assms(1,3) have "r \<in> set (rows w)" by (simp add: repo_Update_def Let_def)
  with True assms(4) show ?thesis by (auto simp: filter_empty_conv)
next
  case False
  with assms(1,3) obtain r0 where "r = update_row m r0"
    by (auto simp: repo_Update_def Let_def)
  with assms(2,4) show ?thesis by (simp add: update_row_failed)
qed

lemma SendMessage_not_acked_rows:
  assumes "\<not> acked env (length (apiRequests w)) m" "dbFails env (dbOps w) = None"
    and "r \<in> set (rows (snd (snd (SendMessage env m w))))" "ID r = ID m"
  shows "Status r = MessageStatusFailed"
proof (cases env w m rule: SendMessage_cases)
  case (transport e)
  let ?m1 = "MarkAsFailed (now w) (Error e) m"
  obtain u w2 where u: "repo_Update env ?m1 (after_api m w) = (u, w2)"
    by (cases "repo_Update env ?m1 (after_api m w)")
  have "r \<in> set (rows (snd (repo_Update env ?m1 (after_api m w))))"
    using assms(3) transport u by (cases u) (simp_all add: SendMessage_Inl Let_def log_simps)
  then show ?thesis
    using assms(2,4) by (intro repo_Update_rows_failed[of env "after_api m w" ?m1 r])
      (simp_all add: after_api_simps MarkAs_simps)
next
  case (rejected resp)
  let ?m1 = "MarkAsFailed (now w) (if resp_Error resp = [] then ''Unknown error from API'' else resp_Error resp) m"
  obtain u w2 where u: "repo_Update env ?m1 (after_api m w) = (u, w2)"
    by (cases "repo_Update env ?m1 (after_api m w)")
  have "r \<in> set (rows (snd (repo_Update env ?m1 (after_api m w))))"
    using assms(3) rejected u by (cases u) (simp_all add: SendMessage_rejected Let_def log_simps)
  then show ?thesis
    using assms(2,4) by (intro repo_Update_rows_failed[of env "after_api m w" ?m1 r])
      (simp_all add: after_api_simps MarkAs_simps)
next
  case (acked resp)
  with assms(1) show ?thesis by simp
qed

lemma ProcessPendingMessages_fetch_failed:
  assumes "fst (GetPendingMessages env batchSize w) = Inl e"
  shows "fst (ProcessPendingMessages env batchSize w) = 0"
    and "fst (snd (ProcessPendingMessages env batchSize w)) = Some e"
    and "apiRequests (snd (snd (ProcessPendingMessages env batchSize w))) = apiRequests w"
    and "rows (snd (snd (ProcessPendingMessages env batchSize w))) = rows w"
  using assms
  by (simp_all add: ProcessPendingMessages_unfold Let_def GetPendingMessages_snd log_simps)

lemma update_row_ID: "ID (update_row m r) = ID r"
  by (simp add: update_row_def)

lemma filter_ID_update_row:
  "x \<noteq> ID m \<Longrightarrow> filter (\<lambda>r. ID r = x) (map (update_row m) rs) = filter (\<lambda>r. ID r = x) rs"
  by (induction rs) (auto simp: update_row_def)

lemma repo_Update_other_rows:
  "x \<noteq> ID m \<Longrightarrow>
   filter (\<lambda>r. ID r = x) (rows (snd (repo_Update env m w))) = filter (\<lambda>r. ID r = x) (rows w)"
  by (auto simp: repo_Update_def Let_def filter_ID_update_row split: option.splits)

lemma repo_Update_rows_written:
  assumes "dbFails env (dbOps w) = None"
    and "r \<in> set (rows (snd (repo_Update env m w)))" "ID r = ID m"
  shows "Status r = Status m \<and> ErrorMessage r = ErrorMessage m"
proof (cases "filter (\<lambda>r. ID r = ID m) (rows w) = []")
  case True
  with assms(1,2) have "r \<in> set (rows w)" by (simp add: repo_Update_def Let_def)
  with True assms(3) show ?thesis by (auto simp: filter_empty_conv)
next
  case False
  with assms(1,2) obtain r0 where "r = update_row m r0"
    by (auto simp: repo_Update_def Let_def)
  with assms(3) show ?thesis by (simp add: update_row_def split: if_splits)
qed

lemma SendMessage_rows:
  "\<exists>m1. ID m1 = ID m \<and> m1 = fst (snd (SendMessage env m w)) \<and>
     rows (snd (snd (SendMessage env m w))) = rows (snd (repo_Update env m1 (after_api m w)))"
proof (cases env w m rule: SendMessage_cases)
  case (transport e)
  let ?m1 = "MarkAsFailed (now w) (Error e) m"
  obtain u w2 where u: "repo_Update env ?m1 (after_api m w) = (u, w2)"
    by (cases "repo_Update env ?m1 (after_api m w)")
  show ?thesis
    using transport u
    by (intro exI[of _ ?m1]) (cases u, simp_all add: SendMessage_Inl Let_def log_simps MarkAs_simps)
next
  case (rejected resp)
  let ?m1 = "MarkAsFailed (now w) (if resp_Error resp = [] then ''Unknown error from API'' else resp_Error resp) m"
  obtain u w2 where u: "repo_Update env ?m1 (after_api m w) = (u, w2)"
    by (cases "repo_Update env ?m1 (after_api m w)")
  show ?thesis
    using rejected u
    by (intro exI[of _ ?m1]) (cases u, simp_all add: SendMessage_rejected Let_def log_simps MarkAs_simps)
next
  case (acked resp)
  let ?m1 = "MarkAsSent (now w) (resp_MessageID resp) m"
  obtain u w2 where u: "repo_Update env ?m1 (after_api m w) = (u, w2)"
    by (cases "repo_Update env ?m1 (after_api m w)")
  obtain k w3 where k: "cache_SetMessageSent env (ID m) (resp_MessageID resp) (now w) w2 = (k, w3)"
    by (cases "cache_SetMessageSent env (ID m) (resp_MessageID resp) (now w) w2")
  with cache_SetMessageSent_frame(3)[of env "ID m" "resp_MessageID resp" "now w" w2]
  have "rows w3 = rows w2" by simp
  then show ?thesis
    using acked u k
    by (intro exI[of _ ?m1])
       (cases u; cases k, simp_all add: SendMessage_acked Let_def log_simps MarkAs_simps)
qed

lemma SendMessage_other_rows:
  assumes "x \<noteq> ID m"
  shows "filter (\<lambda>r. ID r = x) (rows (snd (snd (SendMessage env m w))))
           = filter (\<lambda>r. ID r = x) (rows w)"
proof -
  from SendMessage_rows[of m env w] obtain m1 where m1: "ID m1 = ID m"
    "rows (snd (snd (SendMessage env m w))) = rows (snd (repo_Update env m1 (after_api m w)))"
    by blast
  with assms repo_Update_other_rows[of x m1 env "after_api m w"] show ?thesis
    by (simp add: after_api_simps)
qed

lemma SendMessage_not_acked_rows_error:
  assumes "\<not> acked env (length (apiRequests w)) m" "dbFails env (dbOps w) = None"
    and "r \<in> set (rows (snd (snd (SendMessage env m w))))" "ID r = ID m"
  shows "Status r = MessageStatusFailed \<and> ErrorMessage r \<noteq> None"
proof -
  from SendMessage_rows[of m env w] obtain m1 where m1: "ID m1 = ID m"
    "m1 = fst (snd (SendMessage env m w))"
    "rows (snd (snd (SendMessage env m w))) = rows (snd (repo_Update env m1 (after_api m w)))"
    by blast
  have "Status r = Status m1 \<and> ErrorMessage r = ErrorMessage m1"
    using assms(2-4) m1(1,3)
    by (intro repo_Update_rows_written[of env "after_api m w" r m1]) (simp_all add: after_api_simps)
  then show ?thesis
    using SendMessage_not_acked(2,3)[OF assms(1)] m1(2) by simp
qed

lemma send_loop_other_rows:
  assumes "x \<notin> ID ` set msgs"
  shows "filter (\<lambda>r. ID r = x) (rows (snd (snd (send_loop env msgs c w))))
           = filter (\<lambda>r. ID r = x) (rows w)"
  using assms
proof (induction msgs arbitrary: c w)
  case Nil
  show ?case by simp
next
  case (Cons m ms)
  then have x: "x \<noteq> ID m" "x \<notin> ID ` set ms" by auto
  show ?case
    using Cons.IH[OF x(2)] SendMessage_other_rows[OF x(1), of env w]
    by (simp only: send_loop_Cons Let_def) (simp add: log_simps)
qed

lemma send_loop_failed_rows:
  assumes "distinct (map ID msgs)" "i < length msgs"
    and "\<not> acked env (length (apiRequests w) + i) (msgs ! i)"
    and "dbFails env (dbOps w + i) = None"
    and "r \<in> set (rows (snd (snd (send_loop env msgs c w))))" "ID r = ID (msgs ! i)"
  shows "Status r = MessageStatusFailed \<and> ErrorMessage r \<noteq> None"
  using assms
proof (induction msgs arbitrary: c w i)
  case Nil
  then show ?case by simp
next
  case (Cons m ms)
  let ?w1 = "snd (snd (SendMessage env m w))"
  let ?wl = "log ErrorLevel ''Failed to send message'' ?w1"
  show ?case
  proof (cases i)
    case 0
    with Cons.prems have na: "\<not> acked env (length (apiRequests w)) m"
      and d: "dbFails env (dbOps w) = None" and x: "ID m \<notin> ID ` set ms" and idr: "ID r = ID m"
      by auto
    have e: "fst (SendMessage env m w) \<noteq> None" using na by (simp add: SendMessage_not_acked)
    then have "r \<in> set (rows (snd (snd (send_loop env ms c ?wl))))"
      using Cons.prems(5) by (simp only: send_loop_Cons Let_def) simp
    with idr have "r \<in> set (filter (\<lambda>r. ID r = ID m) (rows (snd (snd (send_loop env ms c ?wl)))))"
      by simp
    then have "r \<in> set (filter (\<lambda>r. ID r = ID m) (rows ?w1))"
      using send_loop_other_rows[OF x, of env c ?wl] by (simp add: log_simps)
    then have "r \<in> set (rows ?w1)" by simp
    from SendMessage_not_acked_rows_error[OF na d this idr] show ?thesis .
  next
    case (Suc j)
    with Cons.prems have j: "j < length ms" and dj: "distinct (map ID ms)"
      and idr: "ID r = ID (ms ! j)" by simp_all
    have a: "\<not> acked env (length (apiRequests w') + j) (ms ! j)"
      if "length (apiRequests w') = Suc (length (apiRequests w))" for w'
      using Cons.prems(3) Suc that by simp
    have d: "dbFails env (dbOps w' + j) = None" if "dbOps w' = Suc (dbOps w)" for w'
      using Cons.prems(4) Suc that by simp
    show ?thesis
    proof (cases "fst (SendMessage env m w) = None")
      case True
      then have r: "r \<in> set (rows (snd (snd (send_loop env ms (c + 1) ?w1))))"
        using Cons.prems(5) by (simp only: send_loop_Cons Let_def) simp
      show ?thesis
        by (rule Cons.IH[OF dj j a d r idr]) (simp_all add: SendMessage_frame)
    next
      case False
      then have r: "r \<in> set (rows (snd (snd (send_loop env ms c ?wl))))"
        using Cons.prems(5) by (simp only: send_loop_Cons Let_def) simp
      show ?thesis
        by (rule Cons.IH[OF dj j a d r idr]) (simp_all add: SendMessage_frame log_simps)
    qed
  qed
qed

lemma fetched_distinct:
  assumes "fst (GetPendingMessages env batchSize w) = Inr msgs" "distinct (map ID (rows w))"
  shows "distinct (map ID msgs)"
proof -
  from GetPendingMessages_fetched[OF assms(1)] obtain n where
    n: "msgs = take n (batch_of w batchSize)" by blast
  have "distinct (map ID (pending_rows w))"
    unfolding pending_rows_def using assms(2) by (rule distinct_map_filter)
  then have "distinct (pending_rows w)" "inj_on ID (set (pending_rows w))"
    by (simp_all add: distinct_map)
  then have "distinct (map ID (sort_key CreatedAt (pending_rows w)))"
    by (simp add: distinct_map)
  then have "distinct (take (nat batchSize) (map ID (sort_key CreatedAt (pending_rows w))))"
    by (rule distinct_take)
  then have "distinct (take n (take (nat batchSize) (map ID (sort_key CreatedAt (pending_rows w)))))"
    by (rule distinct_take)
  then show ?thesis by (simp add: n batch_of_def take_map)
qed

lemma ProcessPendingMessages_failed_rows:
  assumes f: "fst (GetPendingMessages env batchSize w) = Inr msgs"
    and d: "distinct (map ID (rows w))" and i: "i < length msgs"
    and na: "\<not> acked env (length (apiRequests w) + i) (msgs ! i)"
    and u: "dbFails env (Suc (dbOps w) + i) = None"
  shows "(\<exists>r\<in>set (rows (snd (snd (ProcessPendingMessages env batchSize w)))). ID r = ID (msgs ! i)) \<and>
         (\<forall>r\<in>set (rows (snd (snd (ProcessPendingMessages env batchSize w)))).
            ID r = ID (msgs ! i) \<longrightarrow> Status r = MessageStatusFailed \<and> ErrorMessage r \<noteq> None)"
proof -
  let ?g = "GetPendingMessages env batchSize (log InfoLevel ''Processing pending messages'' w)"
  let ?w' = "snd (snd (ProcessPendingMessages env batchSize w))"
  have g: "dbOps (snd ?g) = Suc (dbOps w)" "apiRequests (snd ?g) = apiRequests w"
    by (simp_all add: GetPendingMessages_snd log_simps)
  have ne: "msgs \<noteq> []" using i by auto
  have rw: "rows ?w' = rows (snd (snd (send_loop env msgs 0 (snd ?g))))"
    using f ne by (simp add: ProcessPendingMessages_unfold Let_def log_simps)
  have "msgs ! i \<in> set (rows w)" using fetched_in_rows[OF f] i by auto
  then have "ID (msgs ! i) \<in> set (map ID (rows w))" by simp
  then have "ID (msgs ! i) \<in> set (map ID (rows ?w'))"
    using ProcessPendingMessages_fetched(4)[OF f] by simp
  then have ex: "\<exists>r\<in>set (rows ?w'). ID r = ID (msgs ! i)" by auto
  have "Status r = MessageStatusFailed \<and> ErrorMessage r \<noteq> None"
    if "r \<in> set (rows ?w')" "ID r = ID (msgs ! i)" for r
    using that rw na u g
    by (intro send_loop_failed_rows[OF fetched_distinct[OF f d] i, of env "snd ?g" r 0]) simp_all
  with ex show ?thesis by blast
qed

lemma batch_of_props:
  fixes w :: World and n :: int
  defines "S \<equiv> sort_key CreatedAt (pending_rows w)"
  shows "sorted (map CreatedAt (batch_of w n))"
    and "length (batch_of w n) = min (length (pending_rows w)) (nat n)"
    and "mset (batch_of w n) + mset (drop (nat n) S) = mset (pending_rows w)"
    and "\<forall>a\<in>set (batch_of w n). \<forall>m\<in>set (drop (nat n) S). CreatedAt a \<le> CreatedAt m"
    and "\<forall>m\<in>set (batch_of w n). m \<in> set (rows w) \<and> Status m = MessageStatusPending"
proof -
  have b: "batch_of w n = take (nat n) S" by (simp add: batch_of_def S_def)
  have s: "sorted (map CreatedAt S)" by (simp add: S_def)
  have split: "map CreatedAt S = map CreatedAt (take (nat n) S) @ map CreatedAt (drop (nat n) S)"
    by (metis append_take_drop_id map_append)
  from s split have s2: "sorted (map CreatedAt (take (nat n) S) @ map CreatedAt (drop (nat n) S))"
    by simp
  then show "sorted (map CreatedAt (batch_of w n))"
    unfolding b sorted_append by simp
  show "length (batch_of w n) = min (length (pending_rows w)) (nat n)"
    by (simp add: b S_def)
  have "mset (take (nat n) S) + mset (drop (nat n) S) = mset S"
    by (metis append_take_drop_id mset_append)
  then show "mset (batch_of w n) + mset (drop (nat n) S) = mset (pending_rows w)"
    by (simp add: b S_def)
  from s2 show "\<forall>a\<in>set (batch_of w n). \<forall>m\<in>set (drop (nat n) S). CreatedAt a \<le> CreatedAt m"
    unfolding b sorted_append by auto
  have "set (take (nat n) S) \<subseteq> set S" by (rule set_take_subset)
  then show "\<forall>m\<in>set (batch_of w n). m \<in> set (rows w) \<and> Status m = MessageStatusPending"
    by (auto simp: b S_def pending_rows_def)
qed

section \<open>Helper lemmas: results do not depend on the cache or the log\<close>

lemma core_log: "core (log l s w) = core w"
  by (simp add: core_def log_def)

lemma core_after_api: "core w' = core w \<Longrightarrow> core (after_api m w') = core (after_api m w)"
  by (simp add: core_def after_api_def log_def)

lemma repo_Update_core:
  assumes "core w' = core w" "dbFails env' = dbFails env"
  shows "fst (repo_Update env' m w') = fst (repo_Update env m w)"
    and "core (snd (repo_Update env' m w')) = core (snd (repo_Update env m w))"
  using assms
  by (auto simp: repo_Update_def core_def Let_def split: option.splits)

lemma cache_SetMessageSent_core:
  assumes "core w' = core w"
  shows "core (snd (cache_SetMessageSent env' i x t w')) = core (snd (cache_SetMessageSent env i x t w))"
  using assms
  by (auto simp: cache_SetMessageSent_def core_def Let_def split: option.splits)

lemma SendMessage_core:
  assumes c: "core w' = core w" and d: "dbFails env' = dbFails env"
    and a: "apiReply env' = apiReply env" and r: "cacheRepo env' = cacheRepo env"
  shows "fst (SendMessage env' m w') = fst (SendMessage env m w) \<and>
         fst (snd (SendMessage env' m w')) = fst (snd (SendMessage env m w)) \<and>
         core (snd (snd (SendMessage env' m w'))) = core (snd (snd (SendMessage env m w)))"
proof -
  have n: "length (apiRequests w') = length (apiRequests w)" "now w' = now w"
    using c by (simp_all add: core_def)
  have ca: "core (after_api m w') = core (after_api m w)" by (rule core_after_api[OF c])
  have upd: "fst (repo_Update env' m1 (after_api m w')) = fst (repo_Update env m1 (after_api m w))
      \<and> core (snd (repo_Update env' m1 (after_api m w'))) = core (snd (repo_Update env m1 (after_api m w)))" for m1
    using repo_Update_core[OF ca d] by simp
  show ?thesis
  proof (cases env w m rule: SendMessage_cases)
    case (transport e)
    then have t': "apiReply env' (length (apiRequests w')) (PhoneNumber m) (Content m) = Inl e"
      using a n by simp
    let ?m1 = "MarkAsFailed (now w) (Error e) m"
    obtain u w2 where u: "repo_Update env ?m1 (after_api m w) = (u, w2)"
      by (cases "repo_Update env ?m1 (after_api m w)")
    obtain u' w2' where u': "repo_Update env' ?m1 (after_api m w') = (u', w2')"
      by (cases "repo_Update env' ?m1 (after_api m w')")
    from upd[of ?m1] u u' have "u' = u" "core w2' = core w2" by simp_all
    then show ?thesis
      using transport(1) t' u u' n
      by (simp add: SendMessage_Inl Let_def core_log)
  next
    case (rejected resp)
    then have t': "apiReply env' (length (apiRequests w')) (PhoneNumber m) (Content m) = Inr resp"
      using a n by simp
    let ?m1 = "MarkAsFailed (now w) (if resp_Error resp = [] then ''Unknown error from API'' else resp_Error resp) m"
    obtain u w2 where u: "repo_Update env ?m1 (after_api m w) = (u, w2)"
      by (cases "repo_Update env ?m1 (after_api m w)")
    obtain u' w2' where u': "repo_Update env' ?m1 (after_api m w') = (u', w2')"
      by (cases "repo_Update env' ?m1 (after_api m w')")
    from upd[of ?m1] u u' have "u' = u" "core w2' = core w2" by simp_all
    then show ?thesis
      using rejected(1,2) t' u u' n
      by (simp add: SendMessage_rejected Let_def core_log)
  next
    case (acked resp)
    then have t': "apiReply env' (length (apiRequests w')) (PhoneNumber m) (Content m) = Inr resp"
      using a n by simp
    let ?m1 = "MarkAsSent (now w) (resp_MessageID resp) m"
    obtain u w2 where u: "repo_Update env ?m1 (after_api m w) = (u, w2)"
      by (cases "repo_Update env ?m1 (after_api m w)")
    obtain u' w2' where u': "repo_Update env' ?m1 (after_api m w') = (u', w2')"
      by (cases "repo_Update env' ?m1 (after_api m w')")
    from upd[of ?m1] u u' have uu: "u' = u" "core w2' = core w2" by simp_all
    obtain k w3 where k: "cache_SetMessageSent env (ID m) (resp_MessageID resp) (now w) w2 = (k, w3)"
      by (cases "cache_SetMessageSent env (ID m) (resp_MessageID resp) (now w) w2")
    obtain k' w3' where k': "cache_SetMessageSent env' (ID m) (resp_MessageID resp) (now w) w2' = (k', w3')"
      by (cases "cache_SetMessageSent env' (ID m) (resp_MessageID resp) (now w) w2'")
    from cache_SetMessageSent_core[OF uu(2), of env' "ID m" "resp_MessageID resp" "now w" env] k k'
    have kk: "core w3' = core w3" by simp
    show ?thesis
      using acked(1,2) t' u u' uu k k' kk n r
      by (cases u; cases k; cases k') (simp_all add: SendMessage_acked Let_def core_log)
  qed
qed

lemma send_loop_core:
  assumes "core w' = core w" and d: "dbFails env' = dbFails env"
    and a: "apiReply env' = apiReply env" and r: "cacheRepo env' = cacheRepo env"
  shows "fst (send_loop env' msgs c w') = fst (send_loop env msgs c w) \<and>
         fst (snd (send_loop env' msgs c w')) = fst (snd (send_loop env msgs c w)) \<and>
         core (snd (snd (send_loop env' msgs c w'))) = core (snd (snd (send_loop env msgs c w)))"
  using assms(1)
proof (induction msgs arbitrary: c w w')
  case Nil
  then show ?case by simp
next
  case (Cons m ms)
  note s = SendMessage_core[OF Cons.prems d a r, of m]
  let ?w1 = "snd (snd (SendMessage env m w))" and ?w1' = "snd (snd (SendMessage env' m w'))"
  have c1: "core ?w1' = core ?w1" using s by simp
  have c2: "core (log ErrorLevel ''Failed to send message'' ?w1')
       = core (log ErrorLevel ''Failed to send message'' ?w1)"
    using c1 by (simp add: core_log)
  show ?case
    using s Cons.IH[OF c1] Cons.IH[OF c2]
    by (simp only: send_loop_Cons Let_def) simp
qed

lemma GetPendingMessages_core:
  assumes "core w' = core w" and d: "dbFails env' = dbFails env"
    and f: "rowFault env' = rowFault env"
  shows "fst (GetPendingMessages env' n w') = fst (GetPendingMessages env n w)"
    and "core (snd (GetPendingMessages env' n w')) = core (snd (GetPendingMessages env n w))"
  using assms
  by (auto simp: GetPendingMessages_def repo_GetPendingMessages_def core_def log_def Let_def
      split: option.splits sum.splits)

lemma ProcessPendingMessages_core:
  assumes c: "core w' = core w" and d: "dbFails env' = dbFails env"
    and a: "apiReply env' = apiReply env" and r: "cacheRepo env' = cacheRepo env"
    and f: "rowFault env' = rowFault env"
  shows "fst (ProcessPendingMessages env' n w') = fst (ProcessPendingMessages env n w) \<and>
         fst (snd (ProcessPendingMessages env' n w')) = fst (snd (ProcessPendingMessages env n w)) \<and>
         core (snd (snd (ProcessPendingMessages env' n w')))
           = core (snd (snd (ProcessPendingMessages env n w)))"
proof -
  let ?l = "log InfoLevel ''Processing pending messages''"
  have cl: "core (?l w') = core (?l w)" using c by (simp add: core_log)
  note g = GetPendingMessages_core[OF c d f, of n] GetPendingMessages_core[OF cl d f, of n]
  show ?thesis
  proof (cases "fst (GetPendingMessages env n w)")
    case (Inl e)
    then show ?thesis using g by (simp add: ProcessPendingMessages_unfold Let_def)
  next
    case (Inr msgs)
    note sl = send_loop_core[OF g(4) d a r, of msgs 0]
    show ?thesis using Inr g sl
      by (simp add: ProcessPendingMessages_unfold Let_def core_log)
  qed
qed

section \<open>Helper lemmas: the scheduler\<close>

lemma send_loop_count_ge: "c \<le> fst (send_loop env msgs c w)"
proof (induction msgs arbitrary: c w)
  case Nil
  show ?case by simp
next
  case (Cons m ms)
  have a: "c \<le> fst (send_loop env ms c w1)" for w1
    by (rule Cons.IH)
  have b: "c \<le> fst (send_loop env ms (c + 1) w1)" for w1
    using Cons.IH[of "c + 1" w1] by linarith
  from a b show ?case
    by (simp only: send_loop_Cons Let_def) simp
qed

lemma ProcessPendingMessages_count_nonneg: "0 \<le> fst (ProcessPendingMessages env n w)"
  using send_loop_count_ge[of 0]
  by (cases "fst (GetPendingMessages env n w)")
     (simp_all add: ProcessPendingMessages_unfold Let_def)

lemma ProcessPendingMessages_log:
  "fst (ProcessPendingMessages env n (log l s w)) = fst (ProcessPendingMessages env n w)"
  "fst (snd (ProcessPendingMessages env n (log l s w))) = fst (snd (ProcessPendingMessages env n w))"
  using ProcessPendingMessages_core[of "log l s w" w env env n]
  by (simp_all add: core_log)

lemma processMessages_batch_fst:
  "fst (processMessages_batch env uc w)
     = (fst (ProcessPendingMessages env (MessagesPerBatch (config uc)) w),
        fst (snd (ProcessPendingMessages env (MessagesPerBatch (config uc)) w)))"
proof -
  let ?p = "ProcessPendingMessages env (MessagesPerBatch (config uc))
              (log InfoLevel ''Starting scheduled message processing'' w)"
  obtain n e w1 where p: "?p = (n, e, w1)" by (cases ?p)
  with ProcessPendingMessages_log[of env "MessagesPerBatch (config uc)" InfoLevel
         "''Starting scheduled message processing''" w]
  have "fst (ProcessPendingMessages env (MessagesPerBatch (config uc)) w) = n"
    "fst (snd (ProcessPendingMessages env (MessagesPerBatch (config uc)) w)) = e" by simp_all
  then show ?thesis using p by (cases e) (simp_all add: processMessages_batch_def)
qed

lemma int64_wrap_id: "in_int64 z \<Longrightarrow> int64_wrap z = z"
  by (simp add: in_int64_def int64_wrap_def)

lemma processMessages_lock2_sentCount:
  "sentCount (fst (processMessages_lock2 r uc w))
     = (if snd r = None then int64_wrap (sentCount uc + fst r) else sentCount uc)"
  by (cases r; cases "snd r") (simp_all add: processMessages_lock2_def)

lemma processMessages_sentCount:
  "sentCount (fst (processMessages env uc w))
     = (if fst (snd (ProcessPendingMessages env (MessagesPerBatch (config uc)) w)) = None
        then int64_wrap
               (sentCount uc + fst (ProcessPendingMessages env (MessagesPerBatch (config uc)) w))
        else sentCount uc)"
proof -
  let ?uc1 = "processMessages_lock1 uc w"
  have 1: "config ?uc1 = config uc" "sentCount ?uc1 = sentCount uc"
    by (simp_all add: processMessages_lock1_def)
  obtain r w1 where b: "processMessages_batch env ?uc1 w = (r, w1)"
    by (cases "processMessages_batch env ?uc1 w")
  with processMessages_batch_fst[of env ?uc1 w] 1
  have r: "r = (fst (ProcessPendingMessages env (MessagesPerBatch (config uc)) w),
        fst (snd (ProcessPendingMessages env (MessagesPerBatch (config uc)) w)))" by simp
  show ?thesis
    using b 1 by (simp add: processMessages_def Let_def processMessages_lock2_sentCount r)
qed

lemma StartScheduler_sentCount: "sentCount (fst (snd (StartScheduler env uc w))) = sentCount uc"
  by (simp add: StartScheduler_def Let_def split: option.splits)

lemma StopScheduler_sentCount: "sentCount (fst (snd (StopScheduler env uc w))) = sentCount uc"
  by (simp add: StopScheduler_def Let_def)

lemma sched_step_results_nonneg:
  assumes "sched_step env x y" and "\<forall>r\<in>set (finished x). 0 \<le> fst r"
  shows "\<forall>r\<in>set (finished y). 0 \<le> fst r"
  using assms
proof (cases rule: sched_step.cases)
  case (step_batch n r w)
  have "0 \<le> fst r"
    using step_batch(3) processMessages_batch_fst[of env "sched x" "world x"]
      ProcessPendingMessages_count_nonneg[of env "MessagesPerBatch (config (sched x))" "world x"]
    by simp
  with step_batch assms(2) show ?thesis by simp
qed (use assms(2) in auto)

lemma sched_step_sentCount:
  assumes "sched_step env x y" and "\<forall>r\<in>set (finished x). 0 \<le> fst r"
    and "\<forall>r\<in>set (finished x). in_int64 (sentCount (sched x) + fst r)"
  shows "sentCount (sched x) \<le> sentCount (sched y)"
  using assms(1)
proof (cases rule: sched_step.cases)
  case (step_start err uc w)
  with StartScheduler_sentCount[of env "sched x" "world x"] show ?thesis by simp
next
  case (step_stop err uc w)
  with StopScheduler_sentCount[of env "sched x" "world x"] show ?thesis by simp
next
  case (step_clock t)
  then show ?thesis by simp
next
  case step_fire
  then show ?thesis by simp
next
  case (step_lock1 n)
  then show ?thesis by (simp add: processMessages_lock1_def)
next
  case (step_batch n r w)
  then show ?thesis by simp
next
  case (step_lock2 rs r rs' uc w)
  have "0 \<le> fst r" and "in_int64 (sentCount (sched x) + fst r)"
    using assms(2,3) step_lock2(2) by simp_all
  moreover have "sentCount uc
      = (if snd r = None then int64_wrap (sentCount (sched x) + fst r) else sentCount (sched x))"
    using processMessages_lock2_sentCount[of r "sched x" "world x"] step_lock2(3) by simp
  ultimately show ?thesis using step_lock2(1) by (simp add: int64_wrap_id)
qed

lemma sched_steps_results_nonneg:
  assumes "(sched_step env)\<^sup>*\<^sup>* x y" and "\<forall>r\<in>set (finished x). 0 \<le> fst r"
  shows "\<forall>r\<in>set (finished y). 0 \<le> fst r"
  using assms
proof (induction rule: rtranclp_induct)
  case base
  then show ?case by simp
next
  case (step y z)
  from sched_step_results_nonneg[OF step.hyps(2)] step.IH step.prems show ?case by blast
qed

lemma reachable_results_nonneg:
  assumes "reachable env cfg w0 x"
  shows "\<forall>r\<in>set (finished x). 0 \<le> fst r"
  using sched_steps_results_nonneg[of env "init_system cfg w0" x] assms
  by (simp add: reachable_def init_system_def)

lemma bounded_steps_sentCount:
  assumes "(bounded_step env)\<^sup>*\<^sup>* x y" and "\<forall>r\<in>set (finished x). 0 \<le> fst r"
  shows "sentCount (sched x) \<le> sentCount (sched y) \<and> (\<forall>r\<in>set (finished y). 0 \<le> fst r)"
  using assms
proof (induction rule: rtranclp_induct)
  case base
  then show ?case by simp
next
  case (step y z)
  then have le: "sentCount (sched x) \<le> sentCount (sched y)"
    and nn: "\<forall>r\<in>set (finished y). 0 \<le> fst r" by simp_all
  from step.hyps(2) have st: "sched_step env y z"
    and room: "\<forall>r\<in>set (finished y). in_int64 (sentCount (sched y) + fst r)"
    by (simp_all add: bounded_step_def)
  from sched_step_sentCount[OF st nn room] sched_step_results_nonneg[OF st nn] le
  show ?case by simp
qed

lemma step_init_started: "sched_step env_ok (init_system cfg0 world0) sys_started"
proof -
  let ?x = "init_system cfg0 world0"
  have "StartScheduler env_ok (sched ?x) (world ?x)
      = (fst (StartScheduler env_ok (NewSchedulerUseCase cfg0) world0), started_scheduler, started_world)"
    by (simp add: init_system_def started_scheduler_def started_world_def)
  from step_start[OF this] show ?thesis by (simp add: sys_started_def)
qed

lemma step_started_fired: "sched_step env_ok sys_started sys_fired"
proof -
  have "timer_fires (sched sys_started)" by code_simp
  from step_fire[OF this] show ?thesis by (simp add: sys_fired_def)
qed

lemma step_fired_stopped: "sched_step env_ok sys_fired sys_stopped"
proof -
  have "StopScheduler env_ok (sched sys_fired) (world sys_fired)
      = (fst (StopScheduler env_ok (sched sys_fired) (world sys_fired)),
         fst (snd (StopScheduler env_ok (sched sys_fired) (world sys_fired))),
         snd (snd (StopScheduler env_ok (sched sys_fired) (world sys_fired))))"
    by simp
  from step_stop[OF this] show ?thesis by (simp add: sys_stopped_def)
qed

lemma step_stopped_late_tick: "sched_step env_ok sys_stopped sys_late_tick"
proof -
  have "launched sys_stopped = Suc 0" by code_simp
  from step_lock1[OF this] show ?thesis by (simp add: sys_late_tick_def)
qed

lemma step_late_tick_batched: "sched_step env_ok sys_late_tick sys_batched"
proof -
  have 1: "in_batch sys_late_tick = Suc 0" by code_simp
  have 2: "processMessages_batch env_ok (sched sys_late_tick) (world sys_late_tick)
      = (fst (processMessages_batch env_ok (sched sys_late_tick) (world sys_late_tick)),
         snd (processMessages_batch env_ok (sched sys_late_tick) (world sys_late_tick)))"
    by simp
  from step_batch[OF 1 2] show ?thesis by (simp add: sys_batched_def)
qed

lemma step_batched_counted: "sched_step env_ok sys_batched sys_counted"
proof -
  have 1: "finished sys_batched = [] @ hd (finished sys_batched) # []" by code_simp
  have 2: "processMessages_lock2 (hd (finished sys_batched)) (sched sys_batched) (world sys_batched)
      = (fst (processMessages_lock2 (hd (finished sys_batched)) (sched sys_batched)
               (world sys_batched)),
         snd (processMessages_lock2 (hd (finished sys_batched)) (sched sys_batched)
               (world sys_batched)))"
    by simp
  from step_lock2[OF 1 2] show ?thesis by (simp add: sys_counted_def)
qed

lemma reachable_late_tick: "reachable env_ok cfg0 world0 sys_late_tick"
  unfolding reachable_def
  using step_init_started step_started_fired step_fired_stopped step_stopped_late_tick
  by (meson rtranclp.rtrancl_into_rtrancl rtranclp.rtrancl_refl)

lemma step_running_nextRun:
  assumes "sched_step env x y" and "isRunning (sched x) \<longrightarrow> nextRun (sched x) \<noteq> None"
  shows "isRunning (sched y) \<longrightarrow> nextRun (sched y) \<noteq> None"
  using assms
  by (cases rule: sched_step.cases)
     (auto simp: StartScheduler_def StopScheduler_def Let_def processMessages_lock1_def
        processMessages_lock2_def split: if_splits option.splits prod.splits)

lemma reachable_running_nextRun:
  assumes "reachable env cfg w0 x"
  shows "isRunning (sched x) \<longrightarrow> nextRun (sched x) \<noteq> None"
  using assms unfolding reachable_def
proof (induction rule: rtranclp_induct)
  case base
  show ?case by (simp add: init_system_def NewSchedulerUseCase_def)
next
  case (step y z)
  from step_running_nextRun[OF step.hyps(2) step.IH] show ?case .
qed

lemma StartScheduler_cacheFails:
  "fst (StartScheduler (env\<lparr>cacheFails := f\<rparr>) uc w) = fst (StartScheduler env uc w)"
  "fst (snd (StartScheduler (env\<lparr>cacheFails := f\<rparr>) uc w)) = fst (snd (StartScheduler env uc w))"
  "core (snd (snd (StartScheduler (env\<lparr>cacheFails := f\<rparr>) uc w)))
     = core (snd (snd (StartScheduler env uc w)))"
  by (auto simp: StartScheduler_def Let_def cache_SetSchedulerStatus_def core_def log_def
      split: option.splits)

lemma StopScheduler_cacheFails:
  "fst (StopScheduler (env\<lparr>cacheFails := f\<rparr>) uc w) = fst (StopScheduler env uc w)"
  "fst (snd (StopScheduler (env\<lparr>cacheFails := f\<rparr>) uc w)) = fst (snd (StopScheduler env uc w))"
  "core (snd (snd (StopScheduler (env\<lparr>cacheFails := f\<rparr>) uc w)))
     = core (snd (snd (StopScheduler env uc w)))"
  by (auto simp: StopScheduler_def Let_def cache_SetSchedulerStatus_def core_def log_def
      split: option.splits)

lemma StartScheduler_ok:
  "\<not> isRunning uc \<Longrightarrow> cronParseErr env = None \<Longrightarrow> fst (StartScheduler env uc w) = None"
  by (simp add: StartScheduler_def Let_def)

lemma StopScheduler_ok: "isRunning uc \<Longrightarrow> fst (StopScheduler env uc w) = None"
  by (simp add: StopScheduler_def Let_def)

lemma ProcessPendingMessages_error_paths:
  "(dbFails env (dbOps w) = None \<and> 0 \<le> batchSize \<and> pending_rows w = [] \<longrightarrow>
      fst (ProcessPendingMessages env batchSize w) = 0 \<and>
      fst (snd (ProcessPendingMessages env batchSize w)) = None) \<and>
   (fst (snd (ProcessPendingMessages env batchSize w)) \<noteq> None \<longleftrightarrow>
      (\<exists>e. fst (GetPendingMessages env batchSize w) = Inl e)) \<and>
   (\<forall>e. fst (GetPendingMessages env batchSize w) = Inl e \<longrightarrow>
      fst (snd (ProcessPendingMessages env batchSize w)) = Some e \<and>
      fst (ProcessPendingMessages env batchSize w) = 0 \<and>
      apiRequests (snd (snd (ProcessPendingMessages env batchSize w))) = apiRequests w) \<and>
   (\<not> acked env (length (apiRequests w)) m \<longrightarrow>
      fst (SendMessage env m w) \<noteq> None \<and>
      Status (fst (snd (SendMessage env m w))) = MessageStatusFailed \<and>
      ErrorMessage (fst (snd (SendMessage env m w))) \<noteq> None \<and>
      (dbFails env (dbOps w) = None \<longrightarrow>
         (\<forall>r \<in> set (rows (snd (snd (SendMessage env m w)))).
            ID r = ID m \<longrightarrow> Status r = MessageStatusFailed))) \<and>
   (\<forall>msgs. fst (GetPendingMessages env batchSize w) = Inr msgs \<longrightarrow>
      fst (snd (ProcessPendingMessages env batchSize w)) = None \<and>
      apiRequests (snd (snd (ProcessPendingMessages env batchSize w)))
        = apiRequests w @ map request_of msgs \<and>
      (\<forall>i < length msgs.
         \<not> acked env (length (apiRequests w) + i) (msgs ! i) \<longrightarrow>
         Status (fst (snd (send_loop env msgs 0
                   (snd (GetPendingMessages env batchSize
                           (log InfoLevel ''Processing pending messages'' w))))) ! i)
           = MessageStatusFailed))"
proof (intro conjI allI impI ballI)
  assume a: "dbFails env (dbOps w) = None \<and> 0 \<le> batchSize \<and> pending_rows w = []"
  then have "fst (GetPendingMessages env batchSize w) = Inr []"
    by (simp add: GetPendingMessages_fst batch_of_def)
  then show "fst (ProcessPendingMessages env batchSize w) = 0"
    and "fst (snd (ProcessPendingMessages env batchSize w)) = None"
    by (simp_all add: ProcessPendingMessages_unfold Let_def)
next
  show "fst (snd (ProcessPendingMessages env batchSize w)) \<noteq> None \<longleftrightarrow>
      (\<exists>e. fst (GetPendingMessages env batchSize w) = Inl e)"
    by (cases "fst (GetPendingMessages env batchSize w)")
       (simp_all add: ProcessPendingMessages_unfold Let_def)
next
  fix e assume "fst (GetPendingMessages env batchSize w) = Inl e"
  then show "fst (snd (ProcessPendingMessages env batchSize w)) = Some e"
    and "fst (ProcessPendingMessages env batchSize w) = 0"
    and "apiRequests (snd (snd (ProcessPendingMessages env batchSize w))) = apiRequests w"
    by (simp_all add: ProcessPendingMessages_fetch_failed)
next
  assume "\<not> acked env (length (apiRequests w)) m"
  then show "fst (SendMessage env m w) \<noteq> None"
    and "Status (fst (snd (SendMessage env m w))) = MessageStatusFailed"
    and "ErrorMessage (fst (snd (SendMessage env m w))) \<noteq> None"
    by (simp_all add: SendMessage_not_acked)
next
  fix r
  assume "\<not> acked env (length (apiRequests w)) m" "dbFails env (dbOps w) = None"
    "r \<in> set (rows (snd (snd (SendMessage env m w))))" "ID r = ID m"
  then show "Status r = MessageStatusFailed" by (rule SendMessage_not_acked_rows)
next
  fix msgs assume "fst (GetPendingMessages env batchSize w) = Inr msgs"
  then show "fst (snd (ProcessPendingMessages env batchSize w)) = None"
    and "apiRequests (snd (snd (ProcessPendingMessages env batchSize w)))
        = apiRequests w @ map request_of msgs"
    by (simp_all add: ProcessPendingMessages_fetched)
next
  fix msgs i
  let ?g = "GetPendingMessages env batchSize (log InfoLevel ''Processing pending messages'' w)"
  assume "i < length msgs" "\<not> acked env (length (apiRequests w) + i) (msgs ! i)"
  then show "Status (fst (snd (send_loop env msgs 0 (snd ?g))) ! i) = MessageStatusFailed"
    using send_loop_failed[of i msgs env "snd ?g" 0]
    by (simp add: GetPendingMessages_snd log_simps)
qed

section \<open>Validation\<close>

text \<open>
  Claim C4. \<open>Validate\<close> applies its rules in the order in which the specification lists
  them and the rule that applies decides the result: the empty-content error exactly when
  the content is empty, the too-long error exactly when the content has more than 160
  bytes, the empty-destination error exactly when the destination is empty and the
  content passes both content rules, and success exactly when no rule is violated.
  Content of exactly 160 bytes with a destination is valid.
\<close>

theorem Validate_rules:
  "(Validate m = Some ErrInvalidMessageContent \<longleftrightarrow> Content m = []) \<and>
   (Validate m = Some ErrMessageTooLong \<longleftrightarrow> 160 < length (Content m)) \<and>
   (Validate m = Some ErrInvalidPhoneNumber \<longleftrightarrow>
      PhoneNumber m = [] \<and> Content m \<noteq> [] \<and> length (Content m) \<le> 160) \<and>
   (Validate m = None \<longleftrightarrow>
      Content m \<noteq> [] \<and> length (Content m) \<le> 160 \<and> PhoneNumber m \<noteq> []) \<and>
   (length (Content m) = 160 \<and> PhoneNumber m \<noteq> [] \<longrightarrow> Validate m = None)"
  by (auto simp: Validate_def)

theorem Validate_rules_witness:
  "length (Content (long_message 160 ''+1234567890'')) = 160 \<and>
   PhoneNumber (long_message 160 ''+1234567890'') \<noteq> [] \<and>
   Validate (long_message 160 ''+1234567890'') = None \<and>
   Validate (long_message 161 ''+1234567890'') = Some ErrMessageTooLong \<and>
   Validate (long_message 0 ''+1234567890'') = Some ErrInvalidMessageContent \<and>
   Validate (long_message 160 []) = Some ErrInvalidPhoneNumber"
  using Validate_rules [of "long_message 160 ''+1234567890''"]
    Validate_rules [of "long_message 161 ''+1234567890''"]
    Validate_rules [of "long_message 0 ''+1234567890''"]
    Validate_rules [of "long_message 160 []"]
  by (simp add: long_message_def example_message_def)

text \<open>
  Claim C10. The checks have a fixed precedence: empty content is reported whatever the
  destination is, and content that is too long is reported whatever the destination is.
  A message with empty content and an empty destination fails with the empty-content
  error and not with the empty-destination error.
\<close>

theorem Validate_precedence:
  "(Content m = [] \<longrightarrow> Validate m = Some ErrInvalidMessageContent) \<and>
   (Content m \<noteq> [] \<and> 160 < length (Content m) \<longrightarrow> Validate m = Some ErrMessageTooLong) \<and>
   (Content m = [] \<and> PhoneNumber m = [] \<longrightarrow>
      Validate m = Some ErrInvalidMessageContent \<and> Validate m \<noteq> Some ErrInvalidPhoneNumber)"
  by (simp add: Validate_def)

theorem Validate_precedence_witness:
  "Content (long_message 0 []) = [] \<and> PhoneNumber (long_message 0 []) = [] \<and>
   Validate (long_message 0 []) = Some ErrInvalidMessageContent \<and>
   Validate (long_message 0 []) \<noteq> Some ErrInvalidPhoneNumber \<and>
   Content (long_message 161 []) \<noteq> [] \<and> 160 < length (Content (long_message 161 [])) \<and>
   Validate (long_message 161 []) = Some ErrMessageTooLong"
  using Validate_precedence [of "long_message 0 []"] Validate_precedence [of "long_message 161 []"]
  by (simp add: long_message_def example_message_def)

section \<open>The batch processor\<close>

text \<open>
  Claim C1, as stated: the success count returned by \<open>ProcessPendingMessages\<close> equals
  the number of messages acknowledged as sent during the call, whether or not their
  updated record was persisted. It fails: with three pending rows, a batch size of 2 and
  a database whose first update statement fails, both attempted messages are acknowledged
  as sent and the call returns 1.
\<close>

theorem ProcessPendingMessages_counts_acked_counterexample:
  "fst (GetPendingMessages env_update_fails 2 world0)
     = Inr [example_message 2 10, example_message 3 20] \<and>
   acked_count env_update_fails (length (apiRequests world0))
     [example_message 2 10, example_message 3 20] = 2 \<and>
   fst (ProcessPendingMessages env_update_fails 2 world0) = 1 \<and>
   fst (snd (ProcessPendingMessages env_update_fails 2 world0)) = None \<and>
   fst (ProcessPendingMessages env_update_fails 2 world0)
     \<noteq> acked_count env_update_fails (length (apiRequests world0))
           [example_message 2 10, example_message 3 20]"
  by code_simp

text \<open>
  Claim C1, amended: when the fetch returns the messages \<open>msgs\<close>, the call returns no
  error and a count equal to the number of messages that were acknowledged as sent and
  whose update statement succeeded; every fetched message is attempted, in order, whatever
  happened to the ones before it; and for each message acknowledged as sent whose update
  statement fails, the line "Failed to update message status after successful send" is
  logged at error level.
\<close>

theorem ProcessPendingMessages_counts_persisted:
  assumes "fst (GetPendingMessages env batchSize w) = Inr msgs"
  shows "fst (ProcessPendingMessages env batchSize w)
           = persisted_count env (length (apiRequests w)) (Suc (dbOps w)) msgs \<and>
         fst (snd (ProcessPendingMessages env batchSize w)) = None \<and>
         apiRequests (snd (snd (ProcessPendingMessages env batchSize w)))
           = apiRequests w @ map request_of msgs \<and>
         (\<forall>i < length msgs.
            acked env (length (apiRequests w) + i) (msgs ! i) \<and>
            dbFails env (Suc (dbOps w) + i) \<noteq> None \<longrightarrow>
            (ErrorLevel, ''Failed to update message status after successful send'')
              \<in> set (logs (snd (snd (ProcessPendingMessages env batchSize w)))))"
  using ProcessPendingMessages_fetched(1-3)[OF assms]
    ProcessPendingMessages_persist_failure_logged[OF assms]
  by simp

theorem ProcessPendingMessages_counts_persisted_witness:
  "fst (GetPendingMessages env_update_fails 2 world0)
     = Inr [example_message 2 10, example_message 3 20] \<and>
   acked env_update_fails (length (apiRequests world0) + 0) (example_message 2 10) \<and>
   dbFails env_update_fails (Suc (dbOps world0) + 0) \<noteq> None \<and>
   persisted_count env_update_fails (length (apiRequests world0)) (Suc (dbOps world0))
     [example_message 2 10, example_message 3 20] = 1 \<and>
   fst (ProcessPendingMessages env_update_fails 2 world0) = 1 \<and>
   fst (snd (ProcessPendingMessages env_update_fails 2 world0)) = None \<and>
   apiRequests (snd (snd (ProcessPendingMessages env_update_fails 2 world0)))
     = [(''+1234567890'', ''Test message''), (''+1234567890'', ''Test message'')] \<and>
   (ErrorLevel, ''Failed to update message status after successful send'')
     \<in> set (logs (snd (snd (ProcessPendingMessages env_update_fails 2 world0))))"
proof -
  let ?msgs = "[example_message 2 10, example_message 3 20]"
  have h: "fst (GetPendingMessages env_update_fails 2 world0) = Inr ?msgs"
    by code_simp
  have a: "acked env_update_fails (length (apiRequests world0) + 0) (?msgs ! 0)"
    and d: "dbFails env_update_fails (Suc (dbOps world0) + 0) \<noteq> None"
    and p: "persisted_count env_update_fails (length (apiRequests world0)) (Suc (dbOps world0)) ?msgs = 1"
    and r: "apiRequests world0 @ map request_of ?msgs
              = [(''+1234567890'', ''Test message''), (''+1234567890'', ''Test message'')]"
    by code_simp+
  note t = ProcessPendingMessages_counts_persisted [OF h]
  have "(ErrorLevel, ''Failed to update message status after successful send'')
     \<in> set (logs (snd (snd (ProcessPendingMessages env_update_fails 2 world0))))"
    using t a d by (metis length_Cons zero_less_Suc)
  then show ?thesis using t h a d p r by simp
qed

text \<open>
  Claim C2. When the fetch succeeds and no row is pending, \<open>ProcessPendingMessages\<close>
  returns (0, nil). It returns an error exactly when the fetch of pending messages fails,
  and then it returns that error, a count of 0, and attempts nothing. A delivery that is
  not acknowledged as sent (transport error or another status) makes \<open>SendMessage\<close>
  return an error and mark the message failed with an error text, in memory and, when
  the update statement succeeds, in every stored row of that id. It does not end the
  batch: every fetched message is attempted in order, and each one that is not
  acknowledged ends in status failed. In the table the call leaves behind, where ids are
  unique, each fetched message that was not acknowledged and whose update statement
  succeeded has its row, and that row has status failed and an error text.
\<close>

theorem ProcessPendingMessages_error_handling:
  "(dbFails env (dbOps w) = None \<and> 0 \<le> batchSize \<and> pending_rows w = [] \<longrightarrow>
      fst (ProcessPendingMessages env batchSize w) = 0 \<and>
      fst (snd (ProcessPendingMessages env batchSize w)) = None) \<and>
   (fst (snd (ProcessPendingMessages env batchSize w)) \<noteq> None \<longleftrightarrow>
      (\<exists>e. fst (GetPendingMessages env batchSize w) = Inl e)) \<and>
   (\<forall>e. fst (GetPendingMessages env batchSize w) = Inl e \<longrightarrow>
      fst (snd (ProcessPendingMessages env batchSize w)) = Some e \<and>
      fst (ProcessPendingMessages env batchSize w) = 0 \<and>
      apiRequests (snd (snd (ProcessPendingMessages env batchSize w))) = apiRequests w) \<and>
   (\<not> acked env (length (apiRequests w)) m \<longrightarrow>
      fst (SendMessage env m w) \<noteq> None \<and>
      Status (fst (snd (SendMessage env m w))) = MessageStatusFailed \<and>
      ErrorMessage (fst (snd (SendMessage env m w))) \<noteq> None \<and>
      (dbFails env (dbOps w) = None \<longrightarrow>
         (\<forall>r \<in> set (rows (snd (snd (SendMessage env m w)))).
            ID r = ID m \<longrightarrow> Status r = MessageStatusFailed))) \<and>
   (\<forall>msgs. fst (GetPendingMessages env batchSize w) = Inr msgs \<longrightarrow>
      fst (snd (ProcessPendingMessages env batchSize w)) = None \<and>
      apiRequests (snd (snd (ProcessPendingMessages env batchSize w)))
        = apiRequests w @ map request_of msgs \<and>
      (\<forall>i < length msgs.
         \<not> acked env (length (apiRequests w) + i) (msgs ! i) \<longrightarrow>
         Status (fst (snd (send_loop env msgs 0
                   (snd (GetPendingMessages env batchSize
                           (log InfoLevel ''Processing pending messages'' w))))) ! i)
           = MessageStatusFailed)) \<and>
   (\<forall>msgs i. fst (GetPendingMessages env batchSize w) = Inr msgs \<and>
      distinct (map ID (rows w)) \<and> i < length msgs \<and>
      \<not> acked env (length (apiRequests w) + i) (msgs ! i) \<and>
      dbFails env (Suc (dbOps w) + i) = None \<longrightarrow>
      (\<exists>r \<in> set (rows (snd (snd (ProcessPendingMessages env batchSize w)))).
         ID r = ID (msgs ! i)) \<and>
      (\<forall>r \<in> set (rows (snd (snd (ProcessPendingMessages env batchSize w)))).
         ID r = ID (msgs ! i) \<longrightarrow>
         Status r = MessageStatusFailed \<and> ErrorMessage r \<noteq> None))"
proof -
  have "(\<exists>r \<in> set (rows (snd (snd (ProcessPendingMessages env batchSize w)))).
           ID r = ID (msgs ! i)) \<and>
        (\<forall>r \<in> set (rows (snd (snd (ProcessPendingMessages env batchSize w)))).
           ID r = ID (msgs ! i) \<longrightarrow>
           Status r = MessageStatusFailed \<and> ErrorMessage r \<noteq> None)"
    if "fst (GetPendingMessages env batchSize w) = Inr msgs \<and>
      distinct (map ID (rows w)) \<and> i < length msgs \<and>
      \<not> acked env (length (apiRequests w) + i) (msgs ! i) \<and>
      dbFails env (Suc (dbOps w) + i) = None" for msgs i
    using that by (intro ProcessPendingMessages_failed_rows) simp_all
  with ProcessPendingMessages_error_paths [of env w batchSize m] show ?thesis
    by blast
qed

theorem ProcessPendingMessages_error_handling_witness:
  "dbFails env_ok (dbOps world_empty) = None \<and> (0::int) \<le> 2 \<and> pending_rows world_empty = [] \<and>
   fst (ProcessPendingMessages env_ok 2 world_empty) = 0 \<and>
   fst (snd (ProcessPendingMessages env_ok 2 world_empty)) = None \<and>
   fst (GetPendingMessages env_fetch_fails 2 world0)
     = Inl (Wrapped ''failed to get pending messages'' (ExternalError ''database error'')) \<and>
   fst (snd (ProcessPendingMessages env_fetch_fails 2 world0))
     = Some (Wrapped ''failed to get pending messages'' (ExternalError ''database error'')) \<and>
   fst (ProcessPendingMessages env_fetch_fails 2 world0) = 0 \<and>
   apiRequests (snd (snd (ProcessPendingMessages env_fetch_fails 2 world0))) = [] \<and>
   \<not> acked env_api_fails_first (length (apiRequests world0)) (example_message 2 10) \<and>
   dbFails env_api_fails_first (dbOps world0) = None \<and>
   fst (SendMessage env_api_fails_first (example_message 2 10) world0)
     = Some (ExternalError ''API error'') \<and>
   Status (fst (snd (SendMessage env_api_fails_first (example_message 2 10) world0)))
     = MessageStatusFailed \<and>
   map Status (rows (snd (snd (SendMessage env_api_fails_first (example_message 2 10) world0))))
     = [MessageStatusPending, MessageStatusFailed, MessageStatusPending] \<and>
   fst (GetPendingMessages env_api_fails_first 3 world0)
     = Inr [example_message 2 10, example_message 3 20, example_message 1 30] \<and>
   fst (ProcessPendingMessages env_api_fails_first 3 world0) = 2 \<and>
   fst (snd (ProcessPendingMessages env_api_fails_first 3 world0)) = None \<and>
   length (apiRequests (snd (snd (ProcessPendingMessages env_api_fails_first 3 world0)))) = 3 \<and>
   map Status (fst (snd (send_loop env_api_fails_first
       [example_message 2 10, example_message 3 20, example_message 1 30] 0
       (snd (GetPendingMessages env_api_fails_first 3
               (log InfoLevel ''Processing pending messages'' world0))))))
     = [MessageStatusFailed, MessageStatusSent, MessageStatusSent] \<and>
   distinct (map ID (rows world0)) \<and>
   dbFails env_api_fails_first (Suc (dbOps world0) + 0) = None \<and>
   map ID (rows (snd (snd (ProcessPendingMessages env_api_fails_first 3 world0)))) = [1, 2, 3] \<and>
   Status (rows (snd (snd (ProcessPendingMessages env_api_fails_first 3 world0))) ! 1)
     = MessageStatusFailed \<and>
   ErrorMessage (rows (snd (snd (ProcessPendingMessages env_api_fails_first 3 world0))) ! 1)
     \<noteq> None"
proof -
  let ?rows' = "rows (snd (snd (ProcessPendingMessages env_api_fails_first 3 world0)))"
  let ?e = "Wrapped ''failed to get pending messages'' (ExternalError ''database error'')"
  let ?msgs = "[example_message 2 10, example_message 3 20, example_message 1 30]"
  have h1: "dbFails env_ok (dbOps world_empty) = None \<and> (0::int) \<le> 2 \<and> pending_rows world_empty = []"
    by code_simp
  have h2: "fst (GetPendingMessages env_fetch_fails 2 world0) = Inl ?e"
    by code_simp
  have h3: "\<not> acked env_api_fails_first (length (apiRequests world0)) (example_message 2 10)"
    and h3': "dbFails env_api_fails_first (dbOps world0) = None"
    by code_simp+
  have h4: "fst (GetPendingMessages env_api_fails_first 3 world0) = Inr ?msgs"
    by code_simp
  have c1: "fst (ProcessPendingMessages env_ok 2 world_empty) = 0 \<and>
            fst (snd (ProcessPendingMessages env_ok 2 world_empty)) = None"
    using ProcessPendingMessages_error_handling [of env_ok world_empty 2] h1 by blast
  have c2: "fst (snd (ProcessPendingMessages env_fetch_fails 2 world0)) = Some ?e \<and>
            fst (ProcessPendingMessages env_fetch_fails 2 world0) = 0 \<and>
            apiRequests (snd (snd (ProcessPendingMessages env_fetch_fails 2 world0)))
              = apiRequests world0"
    using ProcessPendingMessages_error_handling [of env_fetch_fails world0 2] h2 by blast
  have c3: "Status (fst (snd (SendMessage env_api_fails_first (example_message 2 10) world0)))
              = MessageStatusFailed"
    using ProcessPendingMessages_error_handling
            [of env_api_fails_first world0 3 "example_message 2 10"] h3 by blast
  have c4: "fst (snd (ProcessPendingMessages env_api_fails_first 3 world0)) = None \<and>
            apiRequests (snd (snd (ProcessPendingMessages env_api_fails_first 3 world0)))
              = apiRequests world0 @ map request_of ?msgs"
    using ProcessPendingMessages_error_handling [of env_api_fails_first world0 3] h4 by blast
  have e1: "apiRequests world0 = []"
    and e2: "fst (SendMessage env_api_fails_first (example_message 2 10) world0)
               = Some (ExternalError ''API error'')"
    and e3: "map Status (rows (snd (snd (SendMessage env_api_fails_first (example_message 2 10) world0))))
               = [MessageStatusPending, MessageStatusFailed, MessageStatusPending]"
    and e4: "fst (ProcessPendingMessages env_api_fails_first 3 world0) = 2"
    and e5: "map Status (fst (snd (send_loop env_api_fails_first ?msgs 0
               (snd (GetPendingMessages env_api_fails_first 3
                       (log InfoLevel ''Processing pending messages'' world0))))))
             = [MessageStatusFailed, MessageStatusSent, MessageStatusSent]"
    by code_simp+
  have h5: "distinct (map ID (rows world0))"
    and h6: "dbFails env_api_fails_first (Suc (dbOps world0) + 0) = None"
    and h7: "\<not> acked env_api_fails_first (length (apiRequests world0) + 0) (?msgs ! 0)"
    and e6: "map ID ?rows' = [1, 2, 3]"
    and e7: "ID (?rows' ! 1) = ID (?msgs ! 0)"
    by code_simp+
  have "length ?rows' = 3" using e6 by (metis length_map length_Cons list.size(3) numeral_3_eq_3)
  then have e8: "?rows' ! 1 \<in> set ?rows'" by simp
  have c5: "Status (?rows' ! 1) = MessageStatusFailed \<and> ErrorMessage (?rows' ! 1) \<noteq> None"
  proof -
    have "\<forall>r \<in> set ?rows'. ID r = ID (?msgs ! 0) \<longrightarrow>
            Status r = MessageStatusFailed \<and> ErrorMessage r \<noteq> None"
      using ProcessPendingMessages_error_handling [of env_api_fails_first world0 3] h4 h5 h6 h7
      by (metis length_Cons zero_less_Suc)
    with e7 e8 show ?thesis by blast
  qed
  show ?thesis using h1 h2 h3 h3' h4 h5 h6 c1 c2 c3 c4 c5 e1 e2 e3 e4 e5 e6 by simp
qed

text \<open>
  Claim C3. For every store and every positive batch size \<open>N\<close>, when the fetch
  succeeds (the query is accepted and its rows are read to the end) the requests \<open>ProcessPendingMessages\<close> makes are exactly those of a list
  \<open>att\<close> of stored messages that are all pending, in ascending order of creation time,
  \<open>min M N\<close> of them where \<open>M\<close> is the number of pending rows (so \<open>M\<close> when
  \<open>M < N\<close> and \<open>N\<close> when \<open>N < M\<close>), and none of them is newer than a pending row
  that is not attempted.
\<close>

theorem ProcessPendingMessages_oldest_pending_first:
  assumes "0 < N" and "dbFails env (dbOps w) = None"
    and "\<forall>k. rowFault env (dbOps w) k = None"
  shows "\<exists>att. fst (GetPendingMessages env N w) = Inr att \<and>
           apiRequests (snd (snd (ProcessPendingMessages env N w)))
             = apiRequests w @ map request_of att \<and>
           (\<forall>m\<in>set att. m \<in> set (rows w) \<and> Status m = MessageStatusPending) \<and>
           sorted (map CreatedAt att) \<and>
           mset att \<subseteq># mset (pending_rows w) \<and>
           (\<forall>a\<in>set att. \<forall>m\<in>#mset (pending_rows w) - mset att. CreatedAt a \<le> CreatedAt m) \<and>
           length att = min (length (pending_rows w)) (nat N) \<and>
           (length (pending_rows w) < nat N \<longrightarrow> length att = length (pending_rows w)) \<and>
           (nat N < length (pending_rows w) \<longrightarrow> length att = nat N)"
proof -
  let ?att = "batch_of w N"
  let ?rest = "drop (nat N) (sort_key CreatedAt (pending_rows w))"
  have f: "fst (GetPendingMessages env N w) = Inr ?att"
    using assms by (intro GetPendingMessages_complete) simp_all
  have m: "mset ?att + mset ?rest = mset (pending_rows w)"
    by (rule batch_of_props)
  then have sub: "mset ?att \<subseteq># mset (pending_rows w)"
    by (metis mset_subset_eq_add_left)
  have diff: "mset (pending_rows w) - mset ?att = mset ?rest"
    using m by (metis add_diff_cancel_left')
  have old: "\<forall>a\<in>set ?att. \<forall>m\<in>#mset (pending_rows w) - mset ?att. CreatedAt a \<le> CreatedAt m"
    unfolding diff using batch_of_props(4)[of w N] by simp
  have len: "length ?att = min (length (pending_rows w)) (nat N)"
    by (rule batch_of_props)
  show ?thesis
    using f ProcessPendingMessages_fetched(3)[OF f] batch_of_props(1,5)[of w N] sub old len
    by (intro exI[of _ ?att]) simp
qed

theorem ProcessPendingMessages_oldest_pending_first_witness:
  "(0::int) < 2 \<and> dbFails env_ok (dbOps world0) = None \<and>
   (\<forall>k. rowFault env_ok (dbOps world0) k = None) \<and>
   length (pending_rows world0) = 3 \<and>
   (\<exists>att. fst (GetPendingMessages env_ok 2 world0) = Inr att \<and>
      apiRequests (snd (snd (ProcessPendingMessages env_ok 2 world0)))
        = apiRequests world0 @ map request_of att \<and>
      sorted (map CreatedAt att) \<and> length att = 2 \<and>
      att = [example_message 2 10, example_message 3 20]) \<and>
   (\<exists>att. fst (GetPendingMessages env_ok 5 world0) = Inr att \<and> length att = 3)"
proof -
  have h: "(0::int) < 2" "(0::int) < 5" "dbFails env_ok (dbOps world0) = None"
    and l: "length (pending_rows world0) = 3"
    and g: "fst (GetPendingMessages env_ok 2 world0)
              = Inr [example_message 2 10, example_message 3 20]"
    by code_simp+
  have r: "\<forall>k. rowFault env_ok (dbOps world0) k = None"
    by (simp add: env_ok_def)
  from ProcessPendingMessages_oldest_pending_first [OF h(1) h(3) r] g l
  have 1: "\<exists>att. fst (GetPendingMessages env_ok 2 world0) = Inr att \<and>
      apiRequests (snd (snd (ProcessPendingMessages env_ok 2 world0)))
        = apiRequests world0 @ map request_of att \<and>
      sorted (map CreatedAt att) \<and> length att = 2 \<and>
      att = [example_message 2 10, example_message 3 20]"
    by auto
  from ProcessPendingMessages_oldest_pending_first [OF h(2) h(3) r] l
  have 2: "\<exists>att. fst (GetPendingMessages env_ok 5 world0) = Inr att \<and> length att = 3"
    by auto
  show ?thesis using h r l 1 2 by simp
qed

section \<open>The scheduler\<close>

text \<open>
  Claim C6. \<open>StartScheduler\<close> on a running scheduler returns
  \<open>ErrSchedulerAlreadyRunning\<close> and leaves the scheduler and the world as they were, so
  the status still reports running; \<open>StopScheduler\<close> on a stopped scheduler returns
  \<open>ErrSchedulerNotRunning\<close> and leaves the scheduler and the world as they were. Both
  are returned errors.
\<close>

theorem control_errors_leave_state:
  "(isRunning uc \<longrightarrow>
      StartScheduler env uc w = (Some ErrSchedulerAlreadyRunning, uc, w) \<and>
      IsRunning (fst (snd (StartScheduler env uc w))) \<and>
      info_Status (fst (GetSchedulerStatus (fst (snd (StartScheduler env uc w)))))
        = SchedulerStatusRunning) \<and>
   (\<not> isRunning uc \<longrightarrow>
      StopScheduler env uc w = (Some ErrSchedulerNotRunning, uc, w) \<and>
      \<not> IsRunning (fst (snd (StopScheduler env uc w))) \<and>
      info_Status (fst (GetSchedulerStatus (fst (snd (StopScheduler env uc w)))))
        = SchedulerStatusStopped)"
  by (simp add: StartScheduler_def StopScheduler_def IsRunning_def GetSchedulerStatus_def)

theorem control_errors_leave_state_witness:
  "isRunning started_scheduler \<and>
   StartScheduler env_ok started_scheduler started_world
     = (Some ErrSchedulerAlreadyRunning, started_scheduler, started_world) \<and>
   info_Status (fst (GetSchedulerStatus
       (fst (snd (StartScheduler env_ok started_scheduler started_world)))))
     = SchedulerStatusRunning \<and>
   \<not> isRunning (NewSchedulerUseCase cfg0) \<and>
   StopScheduler env_ok (NewSchedulerUseCase cfg0) world0
     = (Some ErrSchedulerNotRunning, NewSchedulerUseCase cfg0, world0)"
proof -
  have h1: "isRunning started_scheduler" and h2: "\<not> isRunning (NewSchedulerUseCase cfg0)"
    by code_simp+
  show ?thesis
    using h1 h2 control_errors_leave_state [of started_scheduler env_ok started_world]
      control_errors_leave_state [of "NewSchedulerUseCase cfg0" env_ok world0]
    by blast
qed

text \<open>
  Claim C7. \<open>StopScheduler\<close> on a running scheduler returns no error, sets the running
  flag to false and the next run to nil, and keeps the last run, the cumulative sent
  count, the configuration and the entry id: the status after the stop is the status
  before it with the state set to stopped and the next run cleared.
\<close>

theorem stop_frame:
  assumes "isRunning uc"
  shows "fst (StopScheduler env uc w) = None \<and>
         isRunning (fst (snd (StopScheduler env uc w))) = False \<and>
         nextRun (fst (snd (StopScheduler env uc w))) = None \<and>
         lastRun (fst (snd (StopScheduler env uc w))) = lastRun uc \<and>
         sentCount (fst (snd (StopScheduler env uc w))) = sentCount uc \<and>
         config (fst (snd (StopScheduler env uc w))) = config uc \<and>
         entryID (fst (snd (StopScheduler env uc w))) = entryID uc \<and>
         fst (GetSchedulerStatus (fst (snd (StopScheduler env uc w))))
           = (fst (GetSchedulerStatus uc))
               \<lparr>info_Status := SchedulerStatusStopped, NextRun := None\<rparr>"
  using assms
  by (simp add: StopScheduler_def GetSchedulerStatus_def Let_def)

theorem stop_frame_witness:
  "isRunning started_scheduler \<and>
   fst (StopScheduler env_ok started_scheduler started_world) = None \<and>
   fst (GetSchedulerStatus started_scheduler)
     = \<lparr>info_Status = SchedulerStatusRunning, LastRun = None, NextRun = Some 1000,
        MessagesCount = 0, info_Interval = 120000000000, BatchSize = 2\<rparr> \<and>
   fst (GetSchedulerStatus (fst (snd (StopScheduler env_ok started_scheduler started_world))))
     = \<lparr>info_Status = SchedulerStatusStopped, LastRun = None, NextRun = None,
        MessagesCount = 0, info_Interval = 120000000000, BatchSize = 2\<rparr>"
proof -
  have h: "isRunning started_scheduler"
    and s: "fst (GetSchedulerStatus started_scheduler)
     = \<lparr>info_Status = SchedulerStatusRunning, LastRun = None, NextRun = Some 1000,
        MessagesCount = 0, info_Interval = 120000000000, BatchSize = 2\<rparr>"
    by code_simp+
  show ?thesis using h s stop_frame [OF h, of env_ok started_world] by simp
qed

text \<open>
  Claim C8. \<open>StartScheduler\<close> and \<open>StopScheduler\<close> leave the cumulative sent count as
  it is. A tick whose batch call returns no error sets the counter to the 64-bit sum of
  the counter and the returned count, which is their sum whenever that sum is in the
  range of the type; a tick whose batch call returns an error leaves the counter as it
  is. The returned count is never negative, so a tick that stays in range never decreases
  the counter. Along every sequence of steps of the running system (start, stop, timer,
  the parts of a tick, in any interleaving) from a reachable state, each taken while the
  counter has room for the waiting batch results, the counter does not decrease.
\<close>

theorem sentCount_never_decreases:
  "sentCount (fst (snd (StartScheduler env uc w))) = sentCount uc \<and>
   sentCount (fst (snd (StopScheduler env uc w))) = sentCount uc \<and>
   (fst (snd (ProcessPendingMessages env (MessagesPerBatch (config uc)) w)) = None \<longrightarrow>
      sentCount (fst (processMessages env uc w))
        = int64_wrap
            (sentCount uc + fst (ProcessPendingMessages env (MessagesPerBatch (config uc)) w))) \<and>
   (fst (snd (ProcessPendingMessages env (MessagesPerBatch (config uc)) w)) = None \<and>
    in_int64 (sentCount uc + fst (ProcessPendingMessages env (MessagesPerBatch (config uc)) w)) \<longrightarrow>
      sentCount (fst (processMessages env uc w))
        = sentCount uc + fst (ProcessPendingMessages env (MessagesPerBatch (config uc)) w)) \<and>
   (fst (snd (ProcessPendingMessages env (MessagesPerBatch (config uc)) w)) \<noteq> None \<longrightarrow>
      sentCount (fst (processMessages env uc w)) = sentCount uc) \<and>
   0 \<le> fst (ProcessPendingMessages env (MessagesPerBatch (config uc)) w) \<and>
   (in_int64 (sentCount uc + fst (ProcessPendingMessages env (MessagesPerBatch (config uc)) w)) \<longrightarrow>
      sentCount uc \<le> sentCount (fst (processMessages env uc w))) \<and>
   (reachable env cfg w0 x \<and> (bounded_step env)\<^sup>*\<^sup>* x y \<longrightarrow>
      sentCount (sched x) \<le> sentCount (sched y))"
proof -
  have "sentCount (sched x) \<le> sentCount (sched y)"
    if "reachable env cfg w0 x" "(bounded_step env)\<^sup>*\<^sup>* x y"
    using bounded_steps_sentCount[OF that(2) reachable_results_nonneg[OF that(1)]] by simp
  then show ?thesis
    using ProcessPendingMessages_count_nonneg[of env "MessagesPerBatch (config uc)" w]
    by (simp add: StartScheduler_sentCount StopScheduler_sentCount processMessages_sentCount
        int64_wrap_id)
qed

theorem sentCount_never_decreases_witness:
  "fst (snd (ProcessPendingMessages env_ok (MessagesPerBatch (config started_scheduler))
              started_world)) = None \<and>
   fst (ProcessPendingMessages env_ok (MessagesPerBatch (config started_scheduler))
              started_world) = 2 \<and>
   sentCount started_scheduler = 0 \<and>
   in_int64 (sentCount started_scheduler
     + fst (ProcessPendingMessages env_ok (MessagesPerBatch (config started_scheduler))
              started_world)) \<and>
   sentCount (fst (processMessages env_ok started_scheduler started_world)) = 2 \<and>
   fst (snd (ProcessPendingMessages env_fetch_fails (MessagesPerBatch (config started_scheduler))
              started_world)) \<noteq> None \<and>
   sentCount (fst (processMessages env_fetch_fails started_scheduler started_world)) = 0 \<and>
   reachable env_ok cfg0 world0 sys_started \<and>
   (bounded_step env_ok)\<^sup>*\<^sup>* sys_started sys_counted \<and>
   sentCount (sched sys_started) = 0 \<and> sentCount (sched sys_counted) = 2 \<and>
   sentCount (sched sys_started) \<le> sentCount (sched sys_counted)"
proof -
  have h1: "fst (snd (ProcessPendingMessages env_ok (MessagesPerBatch (config started_scheduler))
              started_world)) = None"
    and h2: "fst (snd (ProcessPendingMessages env_fetch_fails
              (MessagesPerBatch (config started_scheduler)) started_world)) \<noteq> None"
    and h5: "in_int64 (sentCount started_scheduler
               + fst (ProcessPendingMessages env_ok (MessagesPerBatch (config started_scheduler))
                        started_world))"
    and e1: "fst (ProcessPendingMessages env_ok (MessagesPerBatch (config started_scheduler))
              started_world) = 2"
    and e2: "sentCount started_scheduler = 0"
    and e3: "sentCount (sched sys_started) = 0"
    and e4: "sentCount (sched sys_counted) = 2"
    by code_simp+
  have h3: "reachable env_ok cfg0 world0 sys_started"
    unfolding reachable_def using step_init_started by blast
  have room: "\<forall>r\<in>set (finished sys_started). in_int64 (sentCount (sched sys_started) + fst r)"
    "\<forall>r\<in>set (finished sys_fired). in_int64 (sentCount (sched sys_fired) + fst r)"
    "\<forall>r\<in>set (finished sys_stopped). in_int64 (sentCount (sched sys_stopped) + fst r)"
    "\<forall>r\<in>set (finished sys_late_tick). in_int64 (sentCount (sched sys_late_tick) + fst r)"
    "\<forall>r\<in>set (finished sys_batched). in_int64 (sentCount (sched sys_batched) + fst r)"
    by code_simp+
  have h4: "(bounded_step env_ok)\<^sup>*\<^sup>* sys_started sys_counted"
  proof -
    have "bounded_step env_ok sys_started sys_fired" "bounded_step env_ok sys_fired sys_stopped"
      "bounded_step env_ok sys_stopped sys_late_tick"
      "bounded_step env_ok sys_late_tick sys_batched"
      "bounded_step env_ok sys_batched sys_counted"
      unfolding bounded_step_def
      using room step_started_fired step_fired_stopped step_stopped_late_tick
        step_late_tick_batched step_batched_counted
      by blast+
    then show ?thesis
      by (meson rtranclp.rtrancl_into_rtrancl rtranclp.rtrancl_refl)
  qed
  have c1: "sentCount (fst (processMessages env_ok started_scheduler started_world))
              = sentCount started_scheduler
                + fst (ProcessPendingMessages env_ok (MessagesPerBatch (config started_scheduler))
                        started_world)"
    using sentCount_never_decreases [of env_ok started_scheduler started_world] h1 h5 by blast
  have c2: "sentCount (fst (processMessages env_fetch_fails started_scheduler started_world))
              = sentCount started_scheduler"
    using sentCount_never_decreases [of env_fetch_fails started_scheduler started_world] h2 by blast
  have c3: "sentCount (sched sys_started) \<le> sentCount (sched sys_counted)"
    using sentCount_never_decreases [of env_ok _ _ cfg0 world0 sys_started sys_counted] h3 h4
    by blast
  show ?thesis using h1 h2 h3 h4 h5 e1 e2 e3 e4 c1 c2 c3 by simp
qed

text \<open>
  Claim C5 says that in every reachable state the next run is set exactly when the
  scheduler is running. The code breaks it: start, the timer launches a callback, a stop
  request takes the mutex first, and the callback then runs its first critical section,
  which sets the next run without looking at the running flag. The state reached is
  stopped with a next run set, and the status reports it so.
\<close>

theorem late_tick_after_stop:
  "reachable env_ok cfg0 world0 sys_late_tick \<and>
   isRunning (sched sys_late_tick) = False \<and>
   nextRun (sched sys_late_tick) = Some 120000001000 \<and>
   info_Status (fst (GetSchedulerStatus (sched sys_late_tick))) = SchedulerStatusStopped \<and>
   NextRun (fst (GetSchedulerStatus (sched sys_late_tick))) \<noteq> None \<and>
   \<not> (nextRun (sched sys_late_tick) \<noteq> None \<longleftrightarrow> isRunning (sched sys_late_tick))"
proof -
  have "isRunning (sched sys_late_tick) = False"
    and "nextRun (sched sys_late_tick) = Some 120000001000"
    and "info_Status (fst (GetSchedulerStatus (sched sys_late_tick))) = SchedulerStatusStopped"
    and "NextRun (fst (GetSchedulerStatus (sched sys_late_tick))) \<noteq> None"
    by code_simp+
  then show ?thesis using reachable_late_tick by simp
qed

text \<open>
  Claim C9. Whatever the cache answers to its commands, \<open>StartScheduler\<close> and
  \<open>StopScheduler\<close> return the same error value and leave the same scheduler state, and
  \<open>SendMessage\<close> and \<open>ProcessPendingMessages\<close> return the same error, message and
  count and leave the same table, counters and API requests. In particular a stop of a
  running scheduler and a start of a stopped one (with a valid interval) return no error,
  and a send that was acknowledged and persisted returns no error, however the cache
  fails.
\<close>

theorem cache_failures_never_change_outcome:
  "fst (StartScheduler (env\<lparr>cacheFails := f\<rparr>) uc w) = fst (StartScheduler env uc w) \<and>
   fst (snd (StartScheduler (env\<lparr>cacheFails := f\<rparr>) uc w)) = fst (snd (StartScheduler env uc w)) \<and>
   fst (StopScheduler (env\<lparr>cacheFails := f\<rparr>) uc w) = fst (StopScheduler env uc w) \<and>
   fst (snd (StopScheduler (env\<lparr>cacheFails := f\<rparr>) uc w)) = fst (snd (StopScheduler env uc w)) \<and>
   (isRunning uc \<longrightarrow> fst (StopScheduler (env\<lparr>cacheFails := f\<rparr>) uc w) = None) \<and>
   (\<not> isRunning uc \<and> cronParseErr env = None \<longrightarrow>
      fst (StartScheduler (env\<lparr>cacheFails := f\<rparr>) uc w) = None) \<and>
   fst (SendMessage (env\<lparr>cacheFails := f\<rparr>) m w) = fst (SendMessage env m w) \<and>
   fst (snd (SendMessage (env\<lparr>cacheFails := f\<rparr>) m w)) = fst (snd (SendMessage env m w)) \<and>
   core (snd (snd (SendMessage (env\<lparr>cacheFails := f\<rparr>) m w)))
     = core (snd (snd (SendMessage env m w))) \<and>
   (acked env (length (apiRequests w)) m \<and> dbFails env (dbOps w) = None \<and>
      ID m \<in> ID ` set (rows w) \<longrightarrow> fst (SendMessage (env\<lparr>cacheFails := f\<rparr>) m w) = None) \<and>
   fst (ProcessPendingMessages (env\<lparr>cacheFails := f\<rparr>) n w)
     = fst (ProcessPendingMessages env n w) \<and>
   fst (snd (ProcessPendingMessages (env\<lparr>cacheFails := f\<rparr>) n w))
     = fst (snd (ProcessPendingMessages env n w)) \<and>
   core (snd (snd (ProcessPendingMessages (env\<lparr>cacheFails := f\<rparr>) n w)))
     = core (snd (snd (ProcessPendingMessages env n w)))"
proof -
  let ?env = "env\<lparr>cacheFails := f\<rparr>"
  have e: "dbFails ?env = dbFails env" "apiReply ?env = apiReply env"
    "cacheRepo ?env = cacheRepo env" "cronParseErr ?env = cronParseErr env"
    "rowFault ?env = rowFault env"
    by simp_all
  have s: "fst (SendMessage ?env m w) = fst (SendMessage env m w) \<and>
         fst (snd (SendMessage ?env m w)) = fst (snd (SendMessage env m w)) \<and>
         core (snd (snd (SendMessage ?env m w))) = core (snd (snd (SendMessage env m w)))"
    by (rule SendMessage_core[OF refl e(1-3)])
  have p: "fst (ProcessPendingMessages ?env n w) = fst (ProcessPendingMessages env n w) \<and>
         fst (snd (ProcessPendingMessages ?env n w)) = fst (snd (ProcessPendingMessages env n w)) \<and>
         core (snd (snd (ProcessPendingMessages ?env n w)))
           = core (snd (snd (ProcessPendingMessages env n w)))"
    by (rule ProcessPendingMessages_core[OF refl e(1-3) e(5)])
  have a: "fst (SendMessage ?env m w) = None"
    if "acked env (length (apiRequests w)) m \<and> dbFails env (dbOps w) = None \<and>
      ID m \<in> ID ` set (rows w)"
    using that s by (simp add: SendMessage_None_iff)
  have st: "fst (StopScheduler ?env uc w) = None" if "isRunning uc"
    using that by (rule StopScheduler_ok)
  have sa: "fst (StartScheduler ?env uc w) = None" if "\<not> isRunning uc \<and> cronParseErr env = None"
    using that e(4) by (intro StartScheduler_ok) simp_all
  show ?thesis
    using s p a st sa StartScheduler_cacheFails(1,2)[where env = env and f = f and uc = uc and w = w]
      StopScheduler_cacheFails(1,2)[where env = env and f = f and uc = uc and w = w]
    by blast
qed

theorem cache_failures_never_change_outcome_witness:
  "isRunning started_scheduler \<and>
   cacheFails env_cache_fails (cacheOps started_world) = Some (ExternalError ''cache error'') \<and>
   fst (StopScheduler env_cache_fails started_scheduler started_world) = None \<and>
   \<not> isRunning (NewSchedulerUseCase cfg0) \<and> cronParseErr env_ok = None \<and>
   fst (StartScheduler env_cache_fails (NewSchedulerUseCase cfg0) world0) = None \<and>
   acked env_ok (length (apiRequests world0)) (example_message 2 10) \<and>
   dbFails env_ok (dbOps world0) = None \<and>
   ID (example_message 2 10) \<in> ID ` set (rows world0) \<and>
   fst (SendMessage env_cache_fails (example_message 2 10) world0) = None \<and>
   (WarnLevel, ''Failed to cache sent message info'')
     \<in> set (logs (snd (snd (SendMessage env_cache_fails (example_message 2 10) world0)))) \<and>
   fst (ProcessPendingMessages env_cache_fails 2 world0) = 2 \<and>
   fst (ProcessPendingMessages env_ok 2 world0) = 2 \<and>
   fst (snd (ProcessPendingMessages env_cache_fails 2 world0)) = None"
proof -
  let ?f = "\<lambda>n::nat. Some (ExternalError ''cache error'')"
  have env: "env_cache_fails = env_ok\<lparr>cacheFails := ?f\<rparr>"
    by (simp add: env_cache_fails_def)
  have h1: "isRunning started_scheduler"
    and h2: "\<not> isRunning (NewSchedulerUseCase cfg0) \<and> cronParseErr env_ok = None"
    and h3: "acked env_ok (length (apiRequests world0)) (example_message 2 10) \<and>
             dbFails env_ok (dbOps world0) = None \<and>
             ID (example_message 2 10) \<in> ID ` set (rows world0)"
    and e1: "cacheFails env_cache_fails (cacheOps started_world) = Some (ExternalError ''cache error'')"
    and e2: "(WarnLevel, ''Failed to cache sent message info'')
       \<in> set (logs (snd (snd (SendMessage env_cache_fails (example_message 2 10) world0))))"
    and e3: "fst (ProcessPendingMessages env_ok 2 world0) = 2"
    and e4: "fst (snd (ProcessPendingMessages env_ok 2 world0)) = None"
    by code_simp+
  note t = cache_failures_never_change_outcome [where env = env_ok and f = ?f, folded env]
  have c1: "fst (StopScheduler env_cache_fails started_scheduler started_world) = None"
    using t [where uc = started_scheduler and w = started_world] h1 by blast
  have c2: "fst (StartScheduler env_cache_fails (NewSchedulerUseCase cfg0) world0) = None"
    using t [where uc = "NewSchedulerUseCase cfg0" and w = world0] h2 by blast
  have c3: "fst (SendMessage env_cache_fails (example_message 2 10) world0) = None"
    using t [where w = world0 and m = "example_message 2 10"] h3 by blast
  have c4: "fst (ProcessPendingMessages env_cache_fails 2 world0)
              = fst (ProcessPendingMessages env_ok 2 world0) \<and>
            fst (snd (ProcessPendingMessages env_cache_fails 2 world0))
              = fst (snd (ProcessPendingMessages env_ok 2 world0))"
    using t [where w = world0 and n = 2] by blast
  show ?thesis using h1 h2 h3 e1 e2 e3 e4 c1 c2 c3 c4 by simp
qed

end
